theory Spec2Isabelle
  imports Complex_Main
begin

section \<open>The cookbook of devdonalds.py\<close>

text \<open>
  A shallow embedding of \<^verbatim>\<open>src/backend/py_template/devdonalds.py\<close>: the entry
  store (the global list \<^verbatim>\<open>cookbook\<close>), the admission path \<^verbatim>\<open>create_entry\<close>
  and the summary query with its two helpers \<^verbatim>\<open>get_base_ingredients\<close> and
  \<^verbatim>\<open>get_total_cook_time\<close>.

  Python integers are unbounded, so quantities and cook times are \<open>int\<close>. The global
  list is passed explicitly. An exception that leaves a function is the \<open>Inl\<close> branch
  of a sum. The recursion of \<^verbatim>\<open>get_base_ingredients\<close> has no bound of its own in the
  source; what bounds it is the interpreter's recursion limit. The model gives the resolver
  the number of nested calls the interpreter still lets run: \<open>None\<close> says that the
  expansion needs more, which is where the interpreter raises \<^verbatim>\<open>RecursionError\<close>.
  \<open>resolve_at_limit\<close> and \<open>summary_at_limit\<close> are the resolver and the query with that
  exception raised and, in \<^verbatim>\<open>summary\<close>, caught by line 157.
\<close>

subsection \<open>Data model\<close>

text \<open>The dataclasses \<^verbatim>\<open>RequiredItem\<close>, \<^verbatim>\<open>Recipe\<close> and \<^verbatim>\<open>Ingredient\<close>. The field
  \<^verbatim>\<open>type\<close> of an entry is always the string its constructor stands for.\<close>

datatype required_item = RequiredItem (item_name: string) (quantity: int)

datatype entry =
    Recipe (name: string) (required_items: "required_item list")
  | Ingredient (name: string) (cook_time: int)

type_synonym cookbook = "entry list"

text \<open>Exceptions. \<^verbatim>\<open>KeyError\<close> carries the key, \<^verbatim>\<open>AttributeError\<close> the class and
  the attribute, \<^verbatim>\<open>Exception\<close> and \<^verbatim>\<open>RecursionError\<close> their message. \<open>str\<close> is the text
  \<^verbatim>\<open>str(e)\<close> gives; the program never reads the text of a \<^verbatim>\<open>ValueError\<close>, a
  \<^verbatim>\<open>TypeError\<close> or an \<^verbatim>\<open>OverflowError\<close>, and \<open>str\<close> says nothing about them.\<close>

datatype py_error =
    KeyError string
  | AttributeError string string
  | Exception string
  | RecursionError string
  | ValueError
  | TypeError
  | OverflowError

definition quote :: string where
  "quote = [CHR 0x27]"

fun str :: "py_error \<Rightarrow> string" where
  "str (KeyError k) = quote @ k @ quote"
| "str (AttributeError cls attr) =
     quote @ cls @ quote @ '' object has no attribute '' @ quote @ attr @ quote"
| "str (Exception m) = m"
| "str (RecursionError m) = m"

definition MissingDependency :: py_error where
  "MissingDependency =
     Exception ''The recipe contains recipes or ingredients that aren't in the cookbook.''"

subsection \<open>Dictionaries\<close>

text \<open>A Python \<^verbatim>\<open>dict\<close> from names to integers, in insertion order.\<close>

type_synonym dict = "(string \<times> int) list"

text \<open>\<^verbatim>\<open>d.get(k, dflt)\<close>\<close>

fun dict_get :: "dict \<Rightarrow> string \<Rightarrow> int \<Rightarrow> int" where
  "dict_get [] k dflt = dflt"
| "dict_get ((k', v) # d) k dflt = (if k' = k then v else dict_get d k dflt)"

text \<open>\<^verbatim>\<open>d[k] = v\<close>: an existing key keeps its place, a new key goes last.\<close>

fun dict_set :: "dict \<Rightarrow> string \<Rightarrow> int \<Rightarrow> dict" where
  "dict_set [] k v = [(k, v)]"
| "dict_set ((k', v') # d) k v =
     (if k' = k then (k', v) # d else (k', v') # dict_set d k v)"

text \<open>Lines 192-193: \<^verbatim>\<open>for k, v in sub.items(): base[k] = base.get(k, 0) + v\<close>\<close>

fun merge_sub :: "dict \<Rightarrow> dict \<Rightarrow> dict" where
  "merge_sub base [] = base"
| "merge_sub base ((k, v) # sub) = merge_sub (dict_set base k (dict_get base k 0 + v)) sub"

subsection \<open>Recipe resolution\<close>

text \<open>Lines 177-181: the first cookbook item of that name, or \<^verbatim>\<open>None\<close>.\<close>

fun find_entry :: "cookbook \<Rightarrow> string \<Rightarrow> entry option" where
  "find_entry [] n = None"
| "find_entry (e # cb) n = (if name e = n then Some e else find_entry cb n)"

text \<open>
  \<^verbatim>\<open>get_base_ingredients(recipe, multiplier)\<close>, lines 168-195. \<open>items_loop\<close> is the
  \<^verbatim>\<open>for required_item in recipe.required_items\<close> loop with the dictionary built so far.
  The first argument is the number of nested calls the interpreter still lets run; with
  none left the call does not run, and \<open>None\<close> passes up through every caller as the
  \<^verbatim>\<open>RecursionError\<close> does.
\<close>

fun get_base_ingredients :: "nat \<Rightarrow> cookbook \<Rightarrow> entry \<Rightarrow> int \<Rightarrow> (py_error + dict) option"
  and items_loop ::
    "nat \<Rightarrow> cookbook \<Rightarrow> required_item list \<Rightarrow> int \<Rightarrow> dict \<Rightarrow> (py_error + dict) option"
where
  "get_base_ingredients 0 cb recipe multiplier = None"
| "get_base_ingredients (Suc fuel) cb (Ingredient n c) multiplier =
     Some (Inl (AttributeError ''Ingredient'' ''required_items''))"
| "get_base_ingredients (Suc fuel) cb (Recipe n items) multiplier =
     items_loop fuel cb items multiplier []"
| "items_loop fuel cb [] multiplier base_ingredients = Some (Inr base_ingredients)"
| "items_loop fuel cb (required_item # rest) multiplier base_ingredients =
     (case find_entry cb (item_name required_item) of
        None \<Rightarrow> Some (Inl MissingDependency)
      | Some (Ingredient n c) \<Rightarrow>
          items_loop fuel cb rest multiplier
            (dict_set base_ingredients (item_name required_item)
               (dict_get base_ingredients (item_name required_item) 0
                  + quantity required_item * multiplier))
      | Some (Recipe n items) \<Rightarrow>
          (case get_base_ingredients fuel cb (Recipe n items)
                  (quantity required_item * multiplier) of
             None \<Rightarrow> None
           | Some (Inl e) \<Rightarrow> Some (Inl e)
           | Some (Inr sub_ingredients) \<Rightarrow>
               items_loop fuel cb rest multiplier (merge_sub base_ingredients sub_ingredients)))"

subsection \<open>Total cook time\<close>

text \<open>Lines 204-206: the inner loop over the cookbook for one \<^verbatim>\<open>(name, quantity)\<close> pair.
  Reading \<^verbatim>\<open>cook_time\<close> of a recipe raises.\<close>

fun add_cook_time :: "cookbook \<Rightarrow> string \<Rightarrow> int \<Rightarrow> int \<Rightarrow> py_error + int" where
  "add_cook_time [] ingredient_name qty total_cook_time = Inr total_cook_time"
| "add_cook_time (cookbook_item # cb) ingredient_name qty total_cook_time =
     (if name cookbook_item = ingredient_name then
        (case cookbook_item of
           Ingredient n c \<Rightarrow> add_cook_time cb ingredient_name qty (total_cook_time + c * qty)
         | Recipe n items \<Rightarrow> Inl (AttributeError ''Recipe'' ''cook_time''))
      else add_cook_time cb ingredient_name qty total_cook_time)"

fun cook_time_loop :: "cookbook \<Rightarrow> dict \<Rightarrow> int \<Rightarrow> py_error + int" where
  "cook_time_loop cb [] total_cook_time = Inr total_cook_time"
| "cook_time_loop cb ((ingredient_name, qty) # rest) total_cook_time =
     (case add_cook_time cb ingredient_name qty total_cook_time of
        Inl e \<Rightarrow> Inl e
      | Inr t \<Rightarrow> cook_time_loop cb rest t)"

definition get_total_cook_time :: "cookbook \<Rightarrow> dict \<Rightarrow> py_error + int" where
  "get_total_cook_time cb base_ingredients = cook_time_loop cb base_ingredients 0"

subsection \<open>The summary query\<close>

text \<open>A response: the JSON body and the HTTP status.\<close>

datatype body = EmptyBody | ErrorBody string | SummaryBody string int dict

type_synonym response = "body \<times> nat"

definition msg_ingredient_passed :: string where
  "msg_ingredient_passed = ''An ingredient was passed in. Please ONLY pass in a valid recipe!!!''"

definition msg_not_in_cookbook :: string where
  "msg_not_in_cookbook = ''Recipe is not in the cookbook!!!''"

text \<open>Lines 144-149: the scan for the queried recipe; an ingredient of that name answers
  at once.\<close>

fun summary_scan :: "cookbook \<Rightarrow> string \<Rightarrow> entry option \<Rightarrow> response + entry option" where
  "summary_scan [] query_name recipe_entry = Inr recipe_entry"
| "summary_scan (Recipe n items # cb) query_name recipe_entry =
     (if n = query_name then summary_scan cb query_name (Some (Recipe n items))
      else summary_scan cb query_name recipe_entry)"
| "summary_scan (Ingredient n c # cb) query_name recipe_entry =
     (if n = query_name then Inl (ErrorBody msg_ingredient_passed, 400)
      else summary_scan cb query_name recipe_entry)"

text \<open>\<^verbatim>\<open>summary()\<close>, lines 138-166, for a request that carries the \<^verbatim>\<open>name\<close>
  parameter, as far as the recursion limit lets the resolver run: \<open>None\<close> when the
  resolver needs more nested calls than the first argument (\<open>summary_at_limit\<close> below
  gives the answer the program then sends). An exception of the resolver becomes a
  rejection with its text; one of \<^verbatim>\<open>get_total_cook_time\<close> leaves the function.\<close>

definition summary :: "nat \<Rightarrow> cookbook \<Rightarrow> string \<Rightarrow> (py_error + response) option" where
  "summary fuel cb query_name =
     (case summary_scan cb query_name None of
        Inl resp \<Rightarrow> Some (Inr resp)
      | Inr None \<Rightarrow> Some (Inr (ErrorBody msg_not_in_cookbook, 400))
      | Inr (Some recipe_entry) \<Rightarrow>
          (case get_base_ingredients fuel cb recipe_entry 1 of
             None \<Rightarrow> None
           | Some (Inl e) \<Rightarrow> Some (Inr (ErrorBody (str e), 400))
           | Some (Inr base_ingredients_dict) \<Rightarrow>
               (case get_total_cook_time cb base_ingredients_dict of
                  Inl e \<Rightarrow> Some (Inl e)
                | Inr total_cook_time \<Rightarrow>
                    Some (Inr (SummaryBody query_name total_cook_time base_ingredients_dict,
                               200)))))"

text \<open>
  The resolver under an interpreter that lets \<open>limit\<close> nested calls of it run and raises
  \<^verbatim>\<open>RecursionError\<close> with the message \<open>text\<close> beyond that (the message depends on the
  interpreter and on the operation that meets the limit). Nothing in lines 168-195 catches
  the exception.
\<close>

definition resolve_at_limit ::
  "nat \<Rightarrow> string \<Rightarrow> cookbook \<Rightarrow> entry \<Rightarrow> int \<Rightarrow> py_error + dict"
where
  "resolve_at_limit limit text cb recipe multiplier =
     (case get_base_ingredients limit cb recipe multiplier of
        None \<Rightarrow> Inl (RecursionError text)
      | Some result \<Rightarrow> result)"

text \<open>\<^verbatim>\<open>summary()\<close>, lines 138-166, under that interpreter: \<^verbatim>\<open>except Exception\<close> in line
  157 catches every exception of the resolver, \<^verbatim>\<open>RecursionError\<close> among them, and the
  answer is status 400 with the exception's text.\<close>

definition summary_at_limit ::
  "nat \<Rightarrow> string \<Rightarrow> cookbook \<Rightarrow> string \<Rightarrow> py_error + response"
where
  "summary_at_limit limit text cb query_name =
     (case summary_scan cb query_name None of
        Inl resp \<Rightarrow> Inr resp
      | Inr None \<Rightarrow> Inr (ErrorBody msg_not_in_cookbook, 400)
      | Inr (Some recipe_entry) \<Rightarrow>
          (case resolve_at_limit limit text cb recipe_entry 1 of
             Inl e \<Rightarrow> Inr (ErrorBody (str e), 400)
           | Inr base_ingredients_dict \<Rightarrow>
               (case get_total_cook_time cb base_ingredients_dict of
                  Inl e \<Rightarrow> Inl e
                | Inr total_cook_time \<Rightarrow>
                    Inr (SummaryBody query_name total_cook_time base_ingredients_dict, 200))))"
subsection \<open>The expansion tree and the stored cook time\<close>

text \<open>
  The specification's side of the resolver. \<open>occurrences depth cb items\<close> lists every
  occurrence of a base ingredient in the expansion tree below \<open>items\<close>, each with the
  quantities along the path that leads to it; nested recipes are followed \<open>depth\<close> levels
  down. \<open>total_quantity\<close> sums, for one name, the products of the quantities along the
  paths to its occurrences.
\<close>

fun occurrences :: "nat \<Rightarrow> cookbook \<Rightarrow> required_item list \<Rightarrow> (string \<times> int list) list" where
  "occurrences depth cb [] = []"
| "occurrences depth cb (ri # rest) =
     (case find_entry cb (item_name ri) of
        None \<Rightarrow> []
      | Some (Ingredient n c) \<Rightarrow> [(item_name ri, [quantity ri])]
      | Some (Recipe n items) \<Rightarrow>
          (case depth of
             0 \<Rightarrow> []
           | Suc d \<Rightarrow> map (\<lambda>(k, path). (k, quantity ri # path)) (occurrences d cb items)))
     @ occurrences depth cb rest"

definition total_quantity :: "(string \<times> int list) list \<Rightarrow> string \<Rightarrow> int" where
  "total_quantity occs k = (\<Sum>(k', path) \<leftarrow> occs. if k' = k then prod_list path else 0)"


text \<open>The cook time the store holds for an ingredient name.\<close>

definition stored_cook_time :: "cookbook \<Rightarrow> string \<Rightarrow> int" where
  "stored_cook_time cb n = (case find_entry cb n of Some (Ingredient _ c) \<Rightarrow> c | _ \<Rightarrow> 0)"

definition cb_bread :: cookbook where
  "cb_bread = [Ingredient ''Flour'' 1, Recipe ''Dough'' [RequiredItem ''Flour'' 2],
               Recipe ''Bread'' [RequiredItem ''Dough'' 3]]"


subsection \<open>The requirement graph\<close>

text \<open>
  The graph the resolver walks: an edge from an entry name to each name its recipe
  requires, the recipe being the one the lookup of lines 177-181 finds under that name.
\<close>

definition requires :: "cookbook \<Rightarrow> (string \<times> string) set" where
  "requires cb =
     {(a, b). \<exists>n items. find_entry cb a = Some (Recipe n items) \<and> b \<in> item_name ` set items}"

text \<open>The recipe stored under a name expands to a mapping within the given budget.\<close>

definition expands :: "nat \<Rightarrow> cookbook \<Rightarrow> string \<Rightarrow> bool" where
  "expands fuel cb a =
     (\<exists>n items m d. find_entry cb a = Some (Recipe n items) \<and>
        get_base_ingredients fuel cb (Recipe n items) m = Some (Inr d))"

text \<open>
  The names the expansion reaches, that is, looks up in line 178, in the order the loops
  run: the first required item; what the expansion of a nested recipe reaches; and, once an
  item is done (an ingredient, or a nested recipe whose own expansion returned a mapping),
  what the rest of the list reaches. The integer is the running multiplier.
\<close>

inductive reaches :: "cookbook \<Rightarrow> int \<Rightarrow> required_item list \<Rightarrow> string \<Rightarrow> bool"
  for cb :: cookbook
where
  here: "reaches cb m (ri # rest) (item_name ri)"
| inside: "find_entry cb (item_name ri) = Some (Recipe n its) \<Longrightarrow>
     reaches cb (quantity ri * m) its x \<Longrightarrow> reaches cb m (ri # rest) x"
| past_ingredient: "find_entry cb (item_name ri) = Some (Ingredient n c) \<Longrightarrow>
     reaches cb m rest x \<Longrightarrow> reaches cb m (ri # rest) x"
| past_recipe: "find_entry cb (item_name ri) = Some (Recipe n its) \<Longrightarrow>
     get_base_ingredients fuel cb (Recipe n its) (quantity ri * m) = Some (Inr d) \<Longrightarrow>
     reaches cb m rest x \<Longrightarrow> reaches cb m (ri # rest) x"

text \<open>Example stores: two recipes that require each other; a recipe that requires an
  unknown name before it requires itself; a recipe that requires an unknown name after an
  ingredient.\<close>

definition cb_cycle :: cookbook where
  "cb_cycle = [Recipe ''A'' [RequiredItem ''B'' 1], Recipe ''B'' [RequiredItem ''A'' 1]]"

definition cb_cut :: cookbook where
  "cb_cut = [Recipe ''A'' [RequiredItem ''Missing'' 1, RequiredItem ''A'' 1]]"

definition cb_soup :: cookbook where
  "cb_soup = [Ingredient ''Salt'' 2,
              Recipe ''Soup'' [RequiredItem ''Salt'' 1, RequiredItem ''Stock'' 2]]"

text \<open>A recipe that requires itself before it requires an unknown name.\<close>

definition cb_loop :: cookbook where
  "cb_loop = [Recipe ''A'' [RequiredItem ''A'' 1, RequiredItem ''Missing'' 1]]"

subsection \<open>Creating an entry\<close>

text \<open>
  A JSON value as \<^verbatim>\<open>request.get_json()\<close> delivers it, as far as \<^verbatim>\<open>int()\<close> in line 95
  can tell values apart. A float that is finite is the rational number it stands for. A
  string comes with what the interpreter's \<^verbatim>\<open>int()\<close> makes of its text, the parser of
  integer literals being no code of this repository: the integer, or \<open>None\<close> when
  \<^verbatim>\<open>int()\<close> raises \<^verbatim>\<open>ValueError\<close>. Of an array or an object \<^verbatim>\<open>int()\<close> reads nothing.
\<close>

datatype json =
    JInt int
  | JFloat rat
  | JNaN
  | JInfinity
  | JBool bool
  | JStr string "int option"
  | JNull
  | JArray
  | JObject

text \<open>\<^verbatim>\<open>int(v)\<close>: an integer as it is, a float cut toward zero, \<^verbatim>\<open>True\<close> and
  \<^verbatim>\<open>False\<close> as 1 and 0, a string parsed; the other values raise.\<close>

fun py_int :: "json \<Rightarrow> py_error + int" where
  "py_int (JInt i) = Inr i"
| "py_int (JFloat x) = Inr (if 0 \<le> x then \<lfloor>x\<rfloor> else \<lceil>x\<rceil>)"
| "py_int JNaN = Inl ValueError"
| "py_int JInfinity = Inl OverflowError"
| "py_int (JBool b) = Inr (if b then 1 else 0)"
| "py_int (JStr s (Some i)) = Inr i"
| "py_int (JStr s None) = Inl ValueError"
| "py_int JNull = Inl TypeError"
| "py_int JArray = Inl TypeError"
| "py_int JObject = Inl TypeError"

text \<open>
  The JSON body of a creation request: each key is present or absent. A present
  \<^verbatim>\<open>type\<close> or \<^verbatim>\<open>name\<close> is a string and a present \<^verbatim>\<open>cookTime\<close> an integer, as the
  dataclasses declare them; \<^verbatim>\<open>requiredItems\<close> is a list of objects, and the
  \<^verbatim>\<open>quantity\<close> of a required item is any JSON value. Subscripting an absent key raises
  \<^verbatim>\<open>KeyError\<close>.
\<close>

record item_payload =
  ip_name :: "string option"
  ip_quantity :: "json option"

record payload =
  p_type :: "string option"
  p_name :: "string option"
  p_cookTime :: "int option"
  p_requiredItems :: "item_payload list option"

definition msg_type_missing :: string where
  "msg_type_missing = ''The type is missing! Please add the type to your request!!!''"

definition msg_type_invalid :: string where
  "msg_type_invalid = ''Please use the specified type of either 'recipe' or 'ingredient'.''"

definition msg_no_required_items :: string where
  "msg_no_required_items = ''Please ensure your recipe has a requiredItems field.''"

definition msg_cook_time :: string where
  "msg_cook_time = ''Please enter a valid 'cookTime' that is greater or equal to 0!!!''"

definition msg_duplicate_name :: string where
  "msg_duplicate_name =
     ''An entry of this name already exists. Please provide unique entry names!!!''"

definition msg_duplicate_items :: string where
  "msg_duplicate_items =
     ''There are duplicate entires in 'requiredItems'. It can only contain unique elements!!!''"

text \<open>Line 82: \<^verbatim>\<open>payload['type'] == "ingredient" and payload['cookTime'] < 0\<close>; the
  subscript is evaluated only for an ingredient.\<close>

definition cook_time_negative :: "string \<Rightarrow> payload \<Rightarrow> py_error + bool" where
  "cook_time_negative t p =
     (if t = ''ingredient'' then
        (case p_cookTime p of None \<Rightarrow> Inl (KeyError ''cookTime'') | Some c \<Rightarrow> Inr (c < 0))
      else Inr False)"

text \<open>Lines 85-87: the scan for an entry of the payload's name. \<^verbatim>\<open>payload["name"]\<close> is
  evaluated once for each entry the loop visits.\<close>

fun name_exists :: "cookbook \<Rightarrow> string option \<Rightarrow> py_error + bool" where
  "name_exists [] pn = Inr False"
| "name_exists (existing_entry # cb) pn =
     (case pn of
        None \<Rightarrow> Inl (KeyError ''name'')
      | Some n \<Rightarrow> if name existing_entry = n then Inr True else name_exists cb pn)"

text \<open>Lines 91-97: the required items of the payload as \<^verbatim>\<open>RequiredItem\<close> objects,
  item by item: the name, then the quantity, then \<^verbatim>\<open>int()\<close> of it.\<close>

fun build_required_items :: "item_payload list \<Rightarrow> py_error + required_item list" where
  "build_required_items [] = Inr []"
| "build_required_items (required_item # rest) =
     (case ip_name required_item of
        None \<Rightarrow> Inl (KeyError ''name'')
      | Some n \<Rightarrow>
          (case ip_quantity required_item of
             None \<Rightarrow> Inl (KeyError ''quantity'')
           | Some v \<Rightarrow>
               (case py_int v of
                  Inl e \<Rightarrow> Inl e
                | Inr q \<Rightarrow>
                    (case build_required_items rest of
                       Inl e \<Rightarrow> Inl e
                     | Inr items \<Rightarrow> Inr (RequiredItem n q # items)))))"

text \<open>Lines 89-97: the list stays empty for an ingredient.\<close>

definition required_items_of :: "string \<Rightarrow> payload \<Rightarrow> py_error + required_item list" where
  "required_items_of t p =
     (if t = ''recipe'' then
        (case p_requiredItems p of
           None \<Rightarrow> Inl (KeyError ''requiredItems'')
         | Some ips \<Rightarrow> build_required_items ips)
      else Inr [])"

text \<open>\<^verbatim>\<open>validate_required_items\<close>, lines 122-133: true when a name comes twice.\<close>

fun validate_loop :: "required_item list \<Rightarrow> string set \<Rightarrow> bool" where
  "validate_loop [] seen = False"
| "validate_loop (item # rest) seen =
     (if item_name item \<in> seen then True else validate_loop rest (insert (item_name item) seen))"

definition validate_required_items :: "required_item list \<Rightarrow> bool" where
  "validate_required_items required_items_list = validate_loop required_items_list {}"

text \<open>Lines 102-120: the entry is built and appended, and the empty body is returned with
  status 200.\<close>

definition append_entry ::
  "cookbook \<Rightarrow> string \<Rightarrow> payload \<Rightarrow> required_item list \<Rightarrow> (py_error + response) \<times> cookbook"
where
  "append_entry cb t p required_items_list =
     (case p_name p of
        None \<Rightarrow> (Inl (KeyError ''name''), cb)
      | Some n \<Rightarrow>
          if t = ''recipe'' then (Inr (EmptyBody, 200), cb @ [Recipe n required_items_list])
          else if t = ''ingredient'' then
            (case p_cookTime p of
               None \<Rightarrow> (Inl (KeyError ''cookTime''), cb)
             | Some c \<Rightarrow> (Inr (EmptyBody, 200), cb @ [Ingredient n c]))
          else (Inr (EmptyBody, 200), cb))"

text \<open>\<^verbatim>\<open>create_entry()\<close>, lines 67-120: the outcome (an exception or a response) and the
  cookbook afterwards.\<close>

definition create_entry :: "cookbook \<Rightarrow> payload \<Rightarrow> (py_error + response) \<times> cookbook" where
  "create_entry cb p =
     (case p_type p of
        None \<Rightarrow> (Inr (ErrorBody msg_type_missing, 400), cb)
      | Some t \<Rightarrow>
          if t \<notin> set [''recipe'', ''ingredient''] then
            (Inr (ErrorBody msg_type_invalid, 400), cb)
          else if t = ''recipe'' \<and> p_requiredItems p = None then
            (Inr (ErrorBody msg_no_required_items, 400), cb)
          else
            (case cook_time_negative t p of
               Inl e \<Rightarrow> (Inl e, cb)
             | Inr True \<Rightarrow> (Inr (ErrorBody msg_cook_time, 400), cb)
             | Inr False \<Rightarrow>
                 (case name_exists cb (p_name p) of
                    Inl e \<Rightarrow> (Inl e, cb)
                  | Inr True \<Rightarrow> (Inr (ErrorBody msg_duplicate_name, 400), cb)
                  | Inr False \<Rightarrow>
                      (case required_items_of t p of
                         Inl e \<Rightarrow> (Inl e, cb)
                       | Inr required_items_list \<Rightarrow>
                           if validate_required_items required_items_list then
                             (Inr (ErrorBody msg_duplicate_items, 400), cb)
                           else append_entry cb t p required_items_list))))"

text \<open>A sequence of creation requests against one store; a request that ends in an
  exception leaves the store as it was and the next request is served.\<close>

fun create_entries :: "cookbook \<Rightarrow> payload list \<Rightarrow> cookbook" where
  "create_entries cb [] = cb"
| "create_entries cb (p # ps) = create_entries (snd (create_entry cb p)) ps"

text \<open>
  A payload that carries an entry of the data model: the variant is one of the two, a
  recipe has \<^verbatim>\<open>requiredItems\<close>, an ingredient has a \<^verbatim>\<open>cookTime\<close> that is not negative.
\<close>

definition entry_payload :: "payload \<Rightarrow> bool" where
  "entry_payload p =
     (case p_type p of
        None \<Rightarrow> False
      | Some t \<Rightarrow>
          if t = ''ingredient'' then (case p_cookTime p of None \<Rightarrow> False | Some c \<Rightarrow> 0 \<le> c)
          else if t = ''recipe'' then p_requiredItems p \<noteq> None
          else False)"



subsection \<open>The error kinds of the specification\<close>





text \<open>Example requests.\<close>

definition pl_salt :: payload where
  "pl_salt = \<lparr>p_type = Some ''ingredient'', p_name = Some ''Salt'', p_cookTime = Some 2,
              p_requiredItems = None\<rparr>"

definition pl_salt_again :: payload where
  "pl_salt_again = \<lparr>p_type = Some ''recipe'', p_name = Some ''Salt'', p_cookTime = None,
                    p_requiredItems = Some []\<rparr>"

definition pl_no_cook_time :: payload where
  "pl_no_cook_time = \<lparr>p_type = Some ''ingredient'', p_name = Some ''Salt'', p_cookTime = None,
                      p_requiredItems = None\<rparr>"

definition pl_no_name :: payload where
  "pl_no_name = \<lparr>p_type = Some ''ingredient'', p_name = None, p_cookTime = Some 1,
                 p_requiredItems = None\<rparr>"


definition pl_soup :: payload where
  "pl_soup = \<lparr>p_type = Some ''recipe'', p_name = Some ''Soup'', p_cookTime = None,
              p_requiredItems = Some [\<lparr>ip_name = Some ''Water'', ip_quantity = Some (JInt 0)\<rparr>,
                                      \<lparr>ip_name = Some ''Salt'', ip_quantity = Some (JInt (- 2))\<rparr>]\<rparr>"

definition pl_stew :: payload where
  "pl_stew = \<lparr>p_type = Some ''recipe'', p_name = Some ''Stew'', p_cookTime = None,
              p_requiredItems = Some [\<lparr>ip_name = Some ''Beef'', ip_quantity = Some (JFloat (27 / 10))\<rparr>,
                                      \<lparr>ip_name = Some ''Bone'', ip_quantity = Some (JFloat (- 27 / 10))\<rparr>,
                                      \<lparr>ip_name = Some ''Leek'', ip_quantity = Some (JStr ''3'' (Some 3))\<rparr>,
                                      \<lparr>ip_name = Some ''Salt'', ip_quantity = Some (JBool True)\<rparr>]\<rparr>"
section \<open>Properties\<close>

subsection \<open>Store lookups\<close>


lemma find_entry_Some: "find_entry cb n = Some e \<Longrightarrow> name e = n \<and> e \<in> set cb"
  by (induction cb) (auto split: if_splits)

lemma summary_scan_absent:
  "query_name \<notin> name ` set cb \<Longrightarrow> summary_scan cb query_name r = Inr r"
  by (induction cb query_name r rule: summary_scan.induct) auto

lemma summary_scan_recipe:
  "distinct (map name cb) \<Longrightarrow> Recipe n items \<in> set cb \<Longrightarrow>
   summary_scan cb n r = Inr (Some (Recipe n items))"
proof (induction cb n r rule: summary_scan.induct)
  case (1 query_name recipe_entry)
  then show ?case by simp
next
  case (2 n' items' cb query_name recipe_entry)
  then show ?case by (auto simp: summary_scan_absent rev_image_eqI)
next
  case (3 n' c cb query_name recipe_entry)
  then show ?case by (auto simp: rev_image_eqI)
qed


subsection \<open>Dictionaries and occurrence lists\<close>

lemma total_quantity_Nil: "total_quantity [] k = 0"
  by (simp add: total_quantity_def)

lemma total_quantity_append:
  "total_quantity (a @ b) k = total_quantity a k + total_quantity b k"
  by (simp add: total_quantity_def)

lemma total_quantity_scale:
  "total_quantity (map (\<lambda>(k, path). (k, q # path)) occs) k = q * total_quantity occs k"
  by (induction occs) (auto simp: total_quantity_def algebra_simps)

lemma dict_get_absent: "k \<notin> fst ` set d \<Longrightarrow> dict_get d k dflt = dflt"
  by (induction d k dflt rule: dict_get.induct) auto

lemma dict_get_present:
  "distinct (map fst d) \<Longrightarrow> (k, v) \<in> set d \<Longrightarrow> dict_get d k dflt = v"
  by (induction d k dflt rule: dict_get.induct) (auto simp: rev_image_eqI)

lemma keys_dict_set: "fst ` set (dict_set d k v) = insert k (fst ` set d)"
  by (induction d k v rule: dict_set.induct) auto

lemma dict_get_dict_set:
  "dict_get (dict_set d k v) k' dflt = (if k' = k then v else dict_get d k' dflt)"
  by (induction d k v rule: dict_set.induct) auto

lemma distinct_dict_set: "distinct (map fst d) \<Longrightarrow> distinct (map fst (dict_set d k v))"
  by (induction d k v rule: dict_set.induct) (auto simp: keys_dict_set)

lemma keys_merge_sub: "fst ` set (merge_sub base sub) = fst ` set base \<union> fst ` set sub"
  by (induction base sub rule: merge_sub.induct) (auto simp: keys_dict_set)

lemma distinct_merge_sub: "distinct (map fst base) \<Longrightarrow> distinct (map fst (merge_sub base sub))"
  by (induction base sub rule: merge_sub.induct) (auto simp: distinct_dict_set)

lemma dict_get_merge_sub:
  "distinct (map fst sub) \<Longrightarrow>
   dict_get (merge_sub base sub) k 0 = dict_get base k 0 + dict_get sub k 0"
  by (induction base sub rule: merge_sub.induct)
     (auto simp: dict_get_dict_set dict_get_absent)

subsection \<open>The resolver against the expansion tree\<close>

lemma total_quantity_Cons:
  "total_quantity ((k', p) # occs) k = (if k' = k then prod_list p else 0) + total_quantity occs k"
  by (simp add: total_quantity_def)

lemma expansion_sums:
  "(get_base_ingredients fuel cb e m = Some (Inr d) \<longrightarrow>
      distinct (map fst d) \<and>
      fst ` set d = fst ` set (occurrences (fuel - 1) cb (required_items e)) \<and>
      (\<forall>k. dict_get d k 0 = m * total_quantity (occurrences (fuel - 1) cb (required_items e)) k))"
  "(items_loop fuel cb items m base = Some (Inr d') \<longrightarrow> distinct (map fst base) \<longrightarrow>
      distinct (map fst d') \<and>
      fst ` set d' = fst ` set base \<union> fst ` set (occurrences fuel cb items) \<and>
      (\<forall>k. dict_get d' k 0 = dict_get base k 0 + m * total_quantity (occurrences fuel cb items) k))"
proof (induction fuel cb e m and fuel cb items m base arbitrary: d and d'
       rule: get_base_ingredients_items_loop.induct)
  case (1 cb recipe multiplier)
  then show ?case by simp
next
  case (2 fuel cb n c multiplier)
  then show ?case by simp
next
  case (3 fuel cb n items multiplier)
  then show ?case by simp
next
  case (4 fuel cb multiplier base_ingredients)
  then show ?case by (auto simp: total_quantity_Nil)
next
  case (5 fuel cb ri rest multiplier base)
  show ?case
  proof (intro impI)
    assume run: "items_loop fuel cb (ri # rest) multiplier base = Some (Inr d')"
      and dist: "distinct (map fst base)"
    show "distinct (map fst d') \<and>
      fst ` set d' = fst ` set base \<union> fst ` set (occurrences fuel cb (ri # rest)) \<and>
      (\<forall>k. dict_get d' k 0 =
           dict_get base k 0 + multiplier * total_quantity (occurrences fuel cb (ri # rest)) k)"
    proof (cases "find_entry cb (item_name ri)")
      case None
      with run show ?thesis by simp
    next
      case (Some entry)
      show ?thesis
      proof (cases entry)
        case (Ingredient n c)
        let ?b = "dict_set base (item_name ri)
                    (dict_get base (item_name ri) 0 + quantity ri * multiplier)"
        from run Some Ingredient have r: "items_loop fuel cb rest multiplier ?b = Some (Inr d')"
          by simp
        have db: "distinct (map fst ?b)" using dist by (rule distinct_dict_set)
        from "5.IH"(3)[OF Some Ingredient] r db
        have ih: "distinct (map fst d')"
          "fst ` set d' = fst ` set ?b \<union> fst ` set (occurrences fuel cb rest)"
          "\<And>k. dict_get d' k 0 = dict_get ?b k 0 + multiplier * total_quantity (occurrences fuel cb rest) k"
          by blast+
        show ?thesis
          using ih(1) ih(2) Some Ingredient
          by (auto simp: ih(3) keys_dict_set dict_get_dict_set total_quantity_Cons algebra_simps)
      next
        case (Recipe n items)
        from run Some Recipe obtain sub where
          s: "get_base_ingredients fuel cb (Recipe n items) (quantity ri * multiplier) = Some (Inr sub)"
          and r: "items_loop fuel cb rest multiplier (merge_sub base sub) = Some (Inr d')"
          by (auto split: option.splits sum.splits)
        from s obtain f where f: "fuel = Suc f" by (cases fuel) auto
        from "5.IH"(1)[OF Some Recipe] s
        have ihs: "distinct (map fst sub)"
          "fst ` set sub = fst ` set (occurrences (fuel - 1) cb items)"
          "\<And>k. dict_get sub k 0 = quantity ri * multiplier * total_quantity (occurrences (fuel - 1) cb items) k"
          by auto
        have db: "distinct (map fst (merge_sub base sub))" using dist by (rule distinct_merge_sub)
        from "5.IH"(2)[OF Some Recipe s] r db
        have ih: "distinct (map fst d')"
          "fst ` set d' = fst ` set (merge_sub base sub) \<union> fst ` set (occurrences fuel cb rest)"
          "\<And>k. dict_get d' k 0 = dict_get (merge_sub base sub) k 0
                  + multiplier * total_quantity (occurrences fuel cb rest) k"
          by blast+
        have occ: "occurrences fuel cb (ri # rest) =
           map (\<lambda>(k, path). (k, quantity ri # path)) (occurrences (fuel - 1) cb items)
           @ occurrences fuel cb rest"
          using Some Recipe f by simp
        have keys: "fst ` set (map (\<lambda>(k, path). (k, quantity ri # path)) (occurrences (fuel - 1) cb items))
           = fst ` set (occurrences (fuel - 1) cb items)"
          by force
        show ?thesis
          unfolding occ
          using ih(1) ih(2) ihs(2) keys
          by (auto simp: ih(3) ihs(3) keys_merge_sub dict_get_merge_sub[OF ihs(1)]
                total_quantity_append total_quantity_scale algebra_simps
              simp del: set_map)
      qed
    qed
  qed
qed

lemma fuel_mono:
  "(get_base_ingredients fuel cb e m = Some r \<longrightarrow> get_base_ingredients (fuel + k) cb e m = Some r)"
  "(items_loop fuel cb items m base = Some r' \<longrightarrow> items_loop (fuel + k) cb items m base = Some r')"
proof (induction fuel cb e m and fuel cb items m base arbitrary: r and r'
       rule: get_base_ingredients_items_loop.induct)
  case (5 fuel cb ri rest multiplier base)
  show ?case
  proof (cases "find_entry cb (item_name ri)")
    case None
    then show ?thesis by simp
  next
    case (Some entry)
    show ?thesis
    proof (cases entry)
      case (Ingredient n c)
      with Some "5.IH"(3) show ?thesis by simp
    next
      case (Recipe n items)
      show ?thesis
      proof (cases "get_base_ingredients fuel cb (Recipe n items) (quantity ri * multiplier)")
        case None
        with Some Recipe show ?thesis by simp
      next
        case (Some res)
        note s = this
        from "5.IH"(1)[OF \<open>find_entry cb (item_name ri) = Some entry\<close> Recipe] s
        have s': "get_base_ingredients (fuel + k) cb (Recipe n items) (quantity ri * multiplier) = Some res"
          by simp
        show ?thesis
        proof (cases res)
          case (Inl x)
          with s s' \<open>find_entry cb (item_name ri) = Some entry\<close> Recipe show ?thesis by auto
        next
          case (Inr sub)
          from "5.IH"(2)[OF \<open>find_entry cb (item_name ri) = Some entry\<close> Recipe] s Inr
          have "items_loop fuel cb rest multiplier (merge_sub base sub) = Some r' \<longrightarrow>
                items_loop (fuel + k) cb rest multiplier (merge_sub base sub) = Some r'"
            by simp
          with s s' Inr \<open>find_entry cb (item_name ri) = Some entry\<close> Recipe show ?thesis by simp
        qed
      qed
    qed
  qed
qed simp_all

lemma occurrences_stable:
  "(get_base_ingredients fuel cb e m = Some (Inr d) \<longrightarrow>
      occurrences (fuel - 1 + k) cb (required_items e) = occurrences (fuel - 1) cb (required_items e))"
  "(items_loop fuel cb items m base = Some (Inr d') \<longrightarrow>
      occurrences (fuel + k) cb items = occurrences fuel cb items)"
proof (induction fuel cb e m and fuel cb items m base arbitrary: d and d'
       rule: get_base_ingredients_items_loop.induct)
  case (5 fuel cb ri rest multiplier base)
  show ?case
  proof (intro impI)
    assume run: "items_loop fuel cb (ri # rest) multiplier base = Some (Inr d')"
    show "occurrences (fuel + k) cb (ri # rest) = occurrences fuel cb (ri # rest)"
    proof (cases "find_entry cb (item_name ri)")
      case None
      with run show ?thesis by simp
    next
      case (Some entry)
      show ?thesis
      proof (cases entry)
        case (Ingredient n c)
        with Some run "5.IH"(3) show ?thesis by simp
      next
        case (Recipe n items)
        from run Some Recipe obtain sub where
          s: "get_base_ingredients fuel cb (Recipe n items) (quantity ri * multiplier) = Some (Inr sub)"
          and r: "items_loop fuel cb rest multiplier (merge_sub base sub) = Some (Inr d')"
          by (auto split: option.splits sum.splits)
        from s obtain f where f: "fuel = Suc f" by (cases fuel) auto
        from "5.IH"(1)[OF Some Recipe] s
        have a: "occurrences (fuel - 1 + k) cb items = occurrences (fuel - 1) cb items" by simp
        from "5.IH"(2)[OF Some Recipe s] r
        have b: "occurrences (fuel + k) cb rest = occurrences fuel cb rest" by simp
        show ?thesis using Some Recipe f a b by simp
      qed
    qed
  qed
qed simp_all

subsection \<open>Cook time\<close>

lemma add_cook_time_absent: "k \<notin> name ` set cb \<Longrightarrow> add_cook_time cb k q t = Inr t"
  by (induction cb k q t rule: add_cook_time.induct) auto

lemma add_cook_time_ingredient:
  "distinct (map name cb) \<Longrightarrow> find_entry cb k = Some (Ingredient n c) \<Longrightarrow>
   add_cook_time cb k q t = Inr (t + c * q)"
  by (induction cb k q t rule: add_cook_time.induct)
     (auto simp: add_cook_time_absent split: if_splits)

lemma cook_time_loop_sum:
  "distinct (map name cb) \<Longrightarrow>
   (\<And>k. k \<in> fst ` set d \<Longrightarrow> \<exists>n c. find_entry cb k = Some (Ingredient n c)) \<Longrightarrow>
   cook_time_loop cb d t = Inr (t + (\<Sum>(k, q) \<leftarrow> d. stored_cook_time cb k * q))"
proof (induction d arbitrary: t)
  case Nil
  then show ?case by simp
next
  case (Cons a d)
  obtain k q where a: "a = (k, q)" by (cases a)
  from Cons.prems(2)[of k] a obtain n c where f: "find_entry cb k = Some (Ingredient n c)"
    by auto
  have step: "add_cook_time cb k q t = Inr (t + c * q)"
    using Cons.prems(1) f by (rule add_cook_time_ingredient)
  have rest: "cook_time_loop cb d (t + c * q) =
      Inr (t + c * q + (\<Sum>(k, q) \<leftarrow> d. stored_cook_time cb k * q))"
    using Cons.prems by (intro Cons.IH) auto
  show ?case using a step rest f by (simp add: stored_cook_time_def)
qed

lemma occurrences_ingredient:
  "(k, p) \<in> set (occurrences depth cb items) \<Longrightarrow> \<exists>n c. find_entry cb k = Some (Ingredient n c)"
proof (induction depth cb items arbitrary: k p rule: occurrences.induct)
  case (1 depth cb)
  then show ?case by simp
next
  case (2 depth cb ri rest)
  show ?case
  proof (cases "(k, p) \<in> set (occurrences depth cb rest)")
    case True
    then show ?thesis by (rule "2.IH"(2))
  next
    case False
    show ?thesis
    proof (cases "find_entry cb (item_name ri)")
      case None
      with "2.prems" False show ?thesis by simp
    next
      case (Some entry)
      show ?thesis
      proof (cases entry)
        case (Ingredient n c)
        with "2.prems" False Some show ?thesis by auto
      next
        case (Recipe n its)
        show ?thesis
        proof (cases depth)
          case 0
          with "2.prems" False Some Recipe show ?thesis by simp
        next
          case (Suc d)
          with "2.prems" False Some Recipe obtain p' where "(k, p') \<in> set (occurrences d cb its)"
            by auto
          with "2.IH"(1)[OF Some Recipe Suc] show ?thesis by blast
        qed
      qed
    qed
  qed
qed


subsection \<open>Errors, termination and the requirement graph\<close>


lemma child_success:
  "items_loop fuel cb items m base = Some (Inr d) \<Longrightarrow> ri \<in> set items \<Longrightarrow>
   find_entry cb (item_name ri) \<noteq> None \<and>
   (\<forall>n its. find_entry cb (item_name ri) = Some (Recipe n its) \<longrightarrow>
      (\<exists>m' d'. get_base_ingredients fuel cb (Recipe n its) m' = Some (Inr d')))"
proof (induction items arbitrary: base)
  case Nil
  then show ?case by simp
next
  case (Cons a items)
  show ?case
  proof (cases "find_entry cb (item_name a)")
    case None
    with Cons.prems show ?thesis by simp
  next
    case (Some entry)
    show ?thesis
    proof (cases entry)
      case (Ingredient n c)
      with Cons.prems Some have
        r: "items_loop fuel cb items m (dict_set base (item_name a)
              (dict_get base (item_name a) 0 + quantity a * m)) = Some (Inr d)" by simp
      show ?thesis
      proof (cases "ri = a")
        case True
        with Some Ingredient show ?thesis by simp
      next
        case False
        with Cons.prems(2) have "ri \<in> set items" by simp
        with Cons.IH[OF r] show ?thesis by simp
      qed
    next
      case (Recipe n its)
      with Cons.prems(1) Some obtain sub where
        s: "get_base_ingredients fuel cb (Recipe n its) (quantity a * m) = Some (Inr sub)"
        and r: "items_loop fuel cb items m (merge_sub base sub) = Some (Inr d)"
        by (auto split: option.splits sum.splits)
      show ?thesis
      proof (cases "ri = a")
        case True
        with Some Recipe s show ?thesis by auto
      next
        case False
        with Cons.prems(2) have "ri \<in> set items" by simp
        with Cons.IH[OF r] show ?thesis by simp
      qed
    qed
  qed
qed

lemma expands_step:
  assumes "expands fuel cb a" and "(a, b) \<in> requires cb"
  shows "find_entry cb b \<noteq> None \<and> (b \<in> Domain (requires cb) \<longrightarrow> (\<exists>f'<fuel. expands f' cb b))"
proof -
  from assms(1) obtain n items m d where
    fa: "find_entry cb a = Some (Recipe n items)"
    and run: "get_base_ingredients fuel cb (Recipe n items) m = Some (Inr d)"
    by (auto simp: expands_def)
  from run obtain f where f: "fuel = Suc f" by (cases fuel) auto
  with run have loop: "items_loop f cb items m [] = Some (Inr d)" by simp
  from assms(2) fa obtain ri where ri: "ri \<in> set items" "b = item_name ri"
    by (auto simp: requires_def)
  from child_success[OF loop ri(1)] ri(2)
  have present: "find_entry cb b \<noteq> None"
    and sub: "\<And>n' its. find_entry cb b = Some (Recipe n' its) \<Longrightarrow>
       \<exists>m' d'. get_base_ingredients f cb (Recipe n' its) m' = Some (Inr d')"
    by auto
  have "\<exists>f'<fuel. expands f' cb b" if "b \<in> Domain (requires cb)"
  proof -
    from that obtain n' its where fb: "find_entry cb b = Some (Recipe n' its)"
      by (auto simp: requires_def)
    from sub[OF fb] fb have "expands f cb b" by (auto simp: expands_def)
    with f show ?thesis by auto
  qed
  with present show ?thesis by simp
qed

lemma expands_along_path:
  assumes "(a, b) \<in> (requires cb)\<^sup>+"
  shows "expands fuel cb a \<Longrightarrow> b \<in> Domain (requires cb) \<Longrightarrow> \<exists>f'<fuel. expands f' cb b"
  using assms
proof (induction arbitrary: rule: trancl_induct)
  case (base y)
  with expands_step[of fuel cb a y] show ?case by simp
next
  case (step y z)
  from step.hyps(2) have "y \<in> Domain (requires cb)" by auto
  with step.IH step.prems(1) obtain f1 where f1: "f1 < fuel" "expands f1 cb y" by auto
  from expands_step[OF f1(2) step.hyps(2)] step.prems(2)
  obtain f2 where "f2 < f1" "expands f2 cb z" by auto
  with f1(1) show ?case by (intro exI[of _ f2]) simp
qed

lemma no_expansion_on_cycle:
  assumes "(c, c) \<in> (requires cb)\<^sup>+"
  shows "\<not> expands fuel cb c"
proof (induction fuel rule: less_induct)
  case (less fuel)
  show ?case
  proof
    assume e: "expands fuel cb c"
    from assms have "c \<in> Domain (requires cb)" by (auto dest: tranclD)
    with expands_along_path[OF assms e] obtain f' where "f' < fuel" "expands f' cb c" by auto
    with less.IH show False by blast
  qed
qed

lemma no_expansion_into_cycle:
  assumes "(a, c) \<in> (requires cb)\<^sup>*" and "(c, c) \<in> (requires cb)\<^sup>+"
  shows "\<not> expands fuel cb a"
proof
  assume e: "expands fuel cb a"
  show False
  proof (cases "a = c")
    case True
    with e no_expansion_on_cycle[OF assms(2)] show False by simp
  next
    case False
    with assms(1) have p: "(a, c) \<in> (requires cb)\<^sup>+" by (auto dest: rtranclD)
    from assms(2) have "c \<in> Domain (requires cb)" by (auto dest: tranclD)
    with expands_along_path[OF p e] obtain f' where "expands f' cb c" by auto
    with no_expansion_on_cycle[OF assms(2)] show False by simp
  qed
qed

lemma finite_requires: "finite (requires cb)"
proof -
  have "requires cb \<subseteq> name ` set cb \<times> item_name ` (\<Union>e\<in>set cb. set (required_items e))"
  proof
    fix p assume "p \<in> requires cb"
    then obtain a n items ri where p: "p = (a, item_name ri)"
      and f: "find_entry cb a = Some (Recipe n items)" and ri: "ri \<in> set items"
      by (auto simp: requires_def)
    from find_entry_Some[OF f] have "name (Recipe n items) = a" "Recipe n items \<in> set cb"
      by auto
    then have "a \<in> name ` set cb" "Recipe n items \<in> set cb" by (blast, simp)
    with ri p show "p \<in> name ` set cb \<times> item_name ` (\<Union>e\<in>set cb. set (required_items e))"
      by force
  qed
  then show ?thesis by (rule finite_subset) simp
qed

lemma items_terminate:
  assumes "\<And>ri e m. ri \<in> set items \<Longrightarrow> find_entry cb (item_name ri) = Some e \<Longrightarrow>
             \<exists>fuel r. get_base_ingredients fuel cb e m = Some r"
  shows "\<exists>fuel r. items_loop fuel cb items m base = Some r"
  using assms
proof (induction items arbitrary: base)
  case Nil
  then show ?case by simp
next
  case (Cons ri rest)
  have rest: "\<exists>fuel r. items_loop fuel cb rest m b = Some r" for b
  proof (rule Cons.IH)
    fix ri' e m'
    assume "ri' \<in> set rest" "find_entry cb (item_name ri') = Some e"
    then show "\<exists>fuel r. get_base_ingredients fuel cb e m' = Some r"
      using Cons.prems[of ri' e m'] by simp
  qed
  show ?case
  proof (cases "find_entry cb (item_name ri)")
    case None
    then show ?thesis by simp
  next
    case (Some entry)
    show ?thesis
    proof (cases entry)
      case (Ingredient n c)
      with Some rest show ?thesis by simp
    next
      case (Recipe n its)
      from Cons.prems[of ri entry "quantity ri * m"] Some Recipe obtain f1 r1 where
        s: "get_base_ingredients f1 cb (Recipe n its) (quantity ri * m) = Some r1" by auto
      show ?thesis
      proof (cases r1)
        case (Inl e)
        with s Some Recipe have "items_loop f1 cb (ri # rest) m base = Some (Inl e)" by simp
        then show ?thesis by blast
      next
        case (Inr sub)
        from rest[of "merge_sub base sub"] obtain f2 r2 where
          r: "items_loop f2 cb rest m (merge_sub base sub) = Some r2" by auto
        from fuel_mono(1)[of f1 cb "Recipe n its" "quantity ri * m" r1 f2] s
        have s': "get_base_ingredients (f1 + f2) cb (Recipe n its) (quantity ri * m) = Some r1"
          by simp
        from fuel_mono(2)[of f2 cb rest m "merge_sub base sub" r2 f1] r
        have r': "items_loop (f1 + f2) cb rest m (merge_sub base sub) = Some r2"
          by (simp add: add.commute)
        from s' r' Inr Some Recipe have "items_loop (f1 + f2) cb (ri # rest) m base = Some r2"
          by simp
        then show ?thesis by blast
      qed
    qed
  qed
qed

lemma stored_entries_terminate:
  assumes "acyclic (requires cb)"
  shows "find_entry cb a = Some e \<Longrightarrow> \<exists>fuel r. get_base_ingredients fuel cb e m = Some r"
proof -
  from finite_requires assms have "wf ((requires cb)\<inverse>)" by (rule finite_acyclic_wf_converse)
  then show "find_entry cb a = Some e \<Longrightarrow> \<exists>fuel r. get_base_ingredients fuel cb e m = Some r"
  proof (induction a arbitrary: e m rule: wf_induct_rule)
    case (less a)
    show ?case
    proof (cases e)
      case (Ingredient n c)
      then have "get_base_ingredients (Suc 0) cb e m = Some (Inl (AttributeError ''Ingredient'' ''required_items''))"
        by simp
      then show ?thesis by blast
    next
      case (Recipe n its)
      have "\<exists>fuel r. get_base_ingredients fuel cb e' m' = Some r"
        if "ri \<in> set its" "find_entry cb (item_name ri) = Some e'" for ri e' m'
      proof -
        from less.prems Recipe that(1) have "(a, item_name ri) \<in> requires cb"
          by (auto simp: requires_def)
        then have "(item_name ri, a) \<in> (requires cb)\<inverse>" by simp
        from less.IH[OF this that(2)] show ?thesis .
      qed
      then have "\<exists>fuel r. items_loop fuel cb its m [] = Some r" by (rule items_terminate)
      then obtain fuel r where "items_loop fuel cb its m [] = Some r" by blast
      with Recipe have "get_base_ingredients (Suc fuel) cb e m = Some r" by simp
      then show ?thesis by blast
    qed
  qed
qed

lemma acyclic_terminates:
  assumes "acyclic (requires cb)"
  shows "\<exists>fuel r. get_base_ingredients fuel cb (Recipe n items) m = Some r"
proof -
  have "\<exists>fuel r. items_loop fuel cb items m [] = Some r"
    using stored_entries_terminate[OF assms] by (intro items_terminate) blast
  then obtain fuel r where "items_loop fuel cb items m [] = Some r" by blast
  then have "get_base_ingredients (Suc fuel) cb (Recipe n items) m = Some r" by simp
  then show ?thesis by blast
qed

lemma reaches_missing:
  assumes "reaches cb m items x" and "find_entry cb x = None"
  shows "\<exists>f0. \<forall>f\<ge>f0. \<forall>base. items_loop f cb items m base = Some (Inl MissingDependency)"
  using assms
proof (induction rule: reaches.induct)
  case (here m ri rest)
  then show ?case by simp
next
  case (inside ri n its m x rest)
  from inside.IH[OF inside.prems] obtain f0 where
    f0: "\<And>f base. f0 \<le> f \<Longrightarrow> items_loop f cb its (quantity ri * m) base = Some (Inl MissingDependency)"
    by blast
  have "items_loop f cb (ri # rest) m base = Some (Inl MissingDependency)" if "Suc f0 \<le> f" for f base
  proof -
    from that obtain f' where f': "f = Suc f'" "f0 \<le> f'" by (cases f) auto
    with f0[of f' "[]"] inside.hyps(1) show ?thesis by simp
  qed
  then show ?case by blast
next
  case (past_ingredient ri n c m rest x)
  from past_ingredient.IH[OF past_ingredient.prems] obtain f0 where
    f0: "\<And>f base. f0 \<le> f \<Longrightarrow> items_loop f cb rest m base = Some (Inl MissingDependency)"
    by blast
  with past_ingredient.hyps(1)
  have "items_loop f cb (ri # rest) m base = Some (Inl MissingDependency)" if "f0 \<le> f" for f base
    using that by simp
  then show ?case by blast
next
  case (past_recipe ri n its fuel m d rest x)
  from past_recipe.IH[OF past_recipe.prems] obtain f0 where
    f0: "\<And>f base. f0 \<le> f \<Longrightarrow> items_loop f cb rest m base = Some (Inl MissingDependency)"
    by blast
  have "items_loop f cb (ri # rest) m base = Some (Inl MissingDependency)"
    if "fuel + f0 \<le> f" for f base
  proof -
    from that have "f = fuel + (f - fuel)" by simp
    with fuel_mono(1)[of fuel cb "Recipe n its" "quantity ri * m" "Inr d" "f - fuel"]
      past_recipe.hyps(2)
    have "get_base_ingredients f cb (Recipe n its) (quantity ri * m) = Some (Inr d)" by simp
    moreover from that have "f0 \<le> f" by simp
    ultimately show ?thesis using f0[of f "merge_sub base d"] past_recipe.hyps(1) by simp
  qed
  then show ?case by blast
qed

lemma requires_bread: "requires cb_bread = {(''Dough'', ''Flour''), (''Bread'', ''Dough'')}"
  by (auto simp: requires_def cb_bread_def split: if_splits)

lemma requires_cycle: "requires cb_cycle = {(''A'', ''B''), (''B'', ''A'')}"
  by (auto simp: requires_def cb_cycle_def split: if_splits)

lemma requires_cut: "requires cb_cut = {(''A'', ''Missing''), (''A'', ''A'')}"
  by (auto simp: requires_def cb_cut_def split: if_splits)

lemma acyclic_bread: "acyclic (requires cb_bread)"
proof -
  have e: "acyclic ({} :: (string \<times> string) set)" by (simp add: acyclic_def)
  have one: "acyclic {(''Bread'', ''Dough'')}" using e by simp
  have "(''Flour'', ''Dough'') \<notin> {(''Bread'', ''Dough'')}\<^sup>*" by (simp add: rtrancl_insert)
  with one show ?thesis by (simp add: requires_bread)
qed

lemma failure_reaches:
  "(get_base_ingredients fuel cb e m = Some (Inl x) \<longrightarrow> (\<forall>n its. e = Recipe n its \<longrightarrow>
      (\<exists>y. reaches cb m its y \<and> find_entry cb y = None)))"
  "(items_loop fuel cb items m base = Some (Inl x') \<longrightarrow>
      (\<exists>y. reaches cb m items y \<and> find_entry cb y = None))"
proof (induction fuel cb e m and fuel cb items m base arbitrary: x and x'
       rule: get_base_ingredients_items_loop.induct)
  case (5 fuel cb ri rest multiplier base)
  show ?case
  proof (intro impI)
    assume run: "items_loop fuel cb (ri # rest) multiplier base = Some (Inl x')"
    show "\<exists>y. reaches cb multiplier (ri # rest) y \<and> find_entry cb y = None"
    proof (cases "find_entry cb (item_name ri)")
      case None
      have "reaches cb multiplier (ri # rest) (item_name ri)" by (rule reaches.here)
      with None show ?thesis by blast
    next
      case (Some entry)
      note fe = this
      show ?thesis
      proof (cases entry)
        case (Ingredient n c)
        with run fe "5.IH"(3)[OF fe Ingredient] obtain y where
          "reaches cb multiplier rest y" "find_entry cb y = None" by auto
        with fe Ingredient show ?thesis by (blast intro: reaches.past_ingredient)
      next
        case (Recipe n its)
        show ?thesis
        proof (cases "get_base_ingredients fuel cb (Recipe n its) (quantity ri * multiplier)")
          case None
          with run fe Recipe show ?thesis by simp
        next
          case (Some res)
          note s = this
          show ?thesis
          proof (cases res)
            case (Inl e)
            from "5.IH"(1)[OF fe Recipe, of e] s Inl obtain y where
              "reaches cb (quantity ri * multiplier) its y" "find_entry cb y = None" by auto
            with fe Recipe show ?thesis by (blast intro: reaches.inside)
          next
            case (Inr sub)
            with run s fe Recipe have
              "items_loop fuel cb rest multiplier (merge_sub base sub) = Some (Inl x')" by simp
            with "5.IH"(2)[OF fe Recipe s Inr, of x'] obtain y where
              y: "reaches cb multiplier rest y" "find_entry cb y = None" by blast
            from s Inr have
              "get_base_ingredients fuel cb (Recipe n its) (quantity ri * multiplier) = Some (Inr sub)"
              by simp
            with fe Recipe y(1) have "reaches cb multiplier (ri # rest) y"
              by (intro reaches.past_recipe[of cb ri n its fuel multiplier sub]) simp_all
            with y(2) show ?thesis by blast
          qed
        qed
      qed
    qed
  qed
qed simp_all

lemma reaches_requires:
  "reaches cb m items x \<Longrightarrow> \<exists>ri\<in>set items. (item_name ri, x) \<in> (requires cb)\<^sup>*"
proof (induction rule: reaches.induct)
  case (here m ri rest)
  then show ?case by auto
next
  case (inside ri n its m x rest)
  then obtain ri' where ri': "ri' \<in> set its" "(item_name ri', x) \<in> (requires cb)\<^sup>*" by blast
  from inside.hyps(1) ri'(1) have "(item_name ri, item_name ri') \<in> requires cb"
    by (auto simp: requires_def)
  from this ri'(2) have "(item_name ri, x) \<in> (requires cb)\<^sup>*"
    by (rule converse_rtrancl_into_rtrancl)
  then show ?case by auto
next
  case (past_ingredient ri n c m rest x)
  then show ?case by auto
next
  case (past_recipe ri n its fuel m d rest x)
  then show ?case by auto
qed

lemma acyclic_stable:
  assumes "acyclic (requires cb)"
  shows "\<exists>f0 r. \<forall>limit\<ge>f0. get_base_ingredients limit cb (Recipe n items) m = Some r"
proof -
  from acyclic_terminates[OF assms] obtain f0 r where
    r: "get_base_ingredients f0 cb (Recipe n items) m = Some r" by blast
  have "get_base_ingredients limit cb (Recipe n items) m = Some r" if "f0 \<le> limit" for limit
  proof -
    from that have "limit = f0 + (limit - f0)" by simp
    with fuel_mono(1)[of f0 cb "Recipe n items" m r "limit - f0"] r show ?thesis by simp
  qed
  then show ?thesis by blast
qed

lemma missing_stable:
  assumes "reaches cb m items x" and "find_entry cb x = None"
  shows "\<exists>f0. \<forall>limit\<ge>f0. get_base_ingredients limit cb (Recipe n items) m
           = Some (Inl MissingDependency)"
proof -
  from reaches_missing[OF assms] obtain f0 where
    f0: "\<And>f base. f0 \<le> f \<Longrightarrow> items_loop f cb items m base = Some (Inl MissingDependency)"
    by blast
  have "get_base_ingredients limit cb (Recipe n items) m = Some (Inl MissingDependency)"
    if "Suc f0 \<le> limit" for limit
  proof -
    from that obtain f where "limit = Suc f" "f0 \<le> f" by (cases limit) auto
    with f0[of f "[]"] show ?thesis by simp
  qed
  then show ?thesis by blast
qed

lemma cycle_no_mapping:
  assumes "find_entry cb n = Some (Recipe n items)"
    and "(n, c) \<in> (requires cb)\<^sup>*" and "(c, c) \<in> (requires cb)\<^sup>+"
  shows "get_base_ingredients limit cb (Recipe n items) m \<noteq> Some (Inr d)"
proof
  assume "get_base_ingredients limit cb (Recipe n items) m = Some (Inr d)"
  with assms(1) have "expands limit cb n" by (auto simp: expands_def)
  with no_expansion_into_cycle[OF assms(2,3)] show False by simp
qed

lemma cycle_exceeds_limit:
  assumes "find_entry cb n = Some (Recipe n items)"
    and "(n, c) \<in> (requires cb)\<^sup>*" and "(c, c) \<in> (requires cb)\<^sup>+"
    and "\<not> (\<exists>x. reaches cb m items x \<and> find_entry cb x = None)"
  shows "get_base_ingredients limit cb (Recipe n items) m = None"
proof (cases "get_base_ingredients limit cb (Recipe n items) m")
  case None
  then show ?thesis .
next
  case (Some r)
  show ?thesis
  proof (cases r)
    case (Inl e)
    with Some failure_reaches(1)[of limit cb "Recipe n items" m e] assms(4) show ?thesis by blast
  next
    case (Inr d)
    with Some cycle_no_mapping[OF assms(1-3)] show ?thesis by blast
  qed
qed

lemma summary_at_limit_recipe:
  assumes "distinct (map name cb)" and "Recipe n items \<in> set cb"
  shows "summary_at_limit limit text cb n =
     (case resolve_at_limit limit text cb (Recipe n items) 1 of
        Inl e \<Rightarrow> Inr (ErrorBody (str e), 400)
      | Inr d \<Rightarrow>
          (case get_total_cook_time cb d of
             Inl e \<Rightarrow> Inl e
           | Inr t \<Rightarrow> Inr (SummaryBody n t d, 200)))"
  using summary_scan_recipe[OF assms, of None] by (simp add: summary_at_limit_def)

lemma requires_loop: "requires cb_loop = {(''A'', ''A''), (''A'', ''Missing'')}"
  by (auto simp: requires_def cb_loop_def split: if_splits)

lemma cycle_in_cycle: "(''A'', ''A'') \<in> (requires cb_cycle)\<^sup>+"
proof -
  have "(''A'', ''B'') \<in> requires cb_cycle" "(''B'', ''A'') \<in> requires cb_cycle"
    by (simp_all add: requires_cycle)
  then show ?thesis by (rule trancl_into_trancl2[OF _ r_into_trancl])
qed

lemma cycle_reaches_no_missing:
  "\<not> (\<exists>x. reaches cb_cycle 1 [RequiredItem ''B'' 1] x \<and> find_entry cb_cycle x = None)"
proof
  assume "\<exists>x. reaches cb_cycle 1 [RequiredItem ''B'' 1] x \<and> find_entry cb_cycle x = None"
  then obtain x where r: "reaches cb_cycle 1 [RequiredItem ''B'' 1] x"
    and m: "find_entry cb_cycle x = None" by blast
  from reaches_requires[OF r] have "(''B'', x) \<in> (requires cb_cycle)\<^sup>*" by simp
  then have "x = ''B'' \<or> x \<in> Range (requires cb_cycle)" by (auto elim: rtranclE)
  then have "x = ''A'' \<or> x = ''B''" by (auto simp: requires_cycle)
  with m show False by (auto simp: cb_cycle_def)
qed

lemma loop_reaches_itself:
  "reaches cb_loop m items x \<Longrightarrow>
   items = [RequiredItem ''A'' 1, RequiredItem ''Missing'' 1] \<Longrightarrow> x = ''A''"
proof (induction rule: reaches.induct)
  case (here m ri rest)
  then show ?case by auto
next
  case (inside ri n its m x rest)
  from inside.prems have "item_name ri = ''A''" by auto
  with inside.hyps(1) have "its = [RequiredItem ''A'' 1, RequiredItem ''Missing'' 1]"
    by (auto simp: cb_loop_def)
  then show ?case by (rule inside.IH)
next
  case (past_ingredient ri n c m rest x)
  from past_ingredient.prems have "item_name ri = ''A''" by auto
  with past_ingredient.hyps(1) show ?case by (simp add: cb_loop_def)
next
  case (past_recipe ri n its fuel m d rest x)
  from past_recipe.prems have "item_name ri = ''A''" by auto
  with past_recipe.hyps(1) have f: "find_entry cb_loop ''A'' = Some (Recipe n its)" by simp
  then have n: "n = ''A''" by (simp add: cb_loop_def)
  have "(''A'', ''A'') \<in> requires cb_loop" by (simp add: requires_loop)
  then have "(''A'', ''A'') \<in> (requires cb_loop)\<^sup>+" by (rule r_into_trancl)
  with f n past_recipe.hyps(2) cycle_no_mapping[of cb_loop "''A''" its "''A''"]
  show ?case by auto
qed

lemma loop_reaches_no_missing:
  "\<not> (\<exists>x. reaches cb_loop 1 [RequiredItem ''A'' 1, RequiredItem ''Missing'' 1] x
          \<and> find_entry cb_loop x = None)"
proof
  assume "\<exists>x. reaches cb_loop 1 [RequiredItem ''A'' 1, RequiredItem ''Missing'' 1] x
          \<and> find_entry cb_loop x = None"
  then obtain x where r: "reaches cb_loop 1 [RequiredItem ''A'' 1, RequiredItem ''Missing'' 1] x"
    and m: "find_entry cb_loop x = None" by blast
  from loop_reaches_itself[OF r] have "x = ''A''" by simp
  with m show False by (simp add: cb_loop_def)
qed

subsection \<open>Creating entries\<close>

lemma name_exists_Some: "name_exists cb (Some n) = Inr (n \<in> name ` set cb)"
  by (induction cb) auto

lemma validate_loop_iff:
  "validate_loop items seen \<longleftrightarrow>
     (\<not> distinct (map item_name items) \<or> (\<exists>i\<in>set items. item_name i \<in> seen))"
  by (induction items seen rule: validate_loop.induct) (auto simp: rev_image_eqI)

lemma validate_required_items_iff:
  "validate_required_items items \<longleftrightarrow> \<not> distinct (map item_name items)"
  by (simp add: validate_required_items_def validate_loop_iff)

lemma build_required_items_Inr:
  "build_required_items ips = Inr items \<Longrightarrow>
     map (Some \<circ> item_name) items = map ip_name ips
     \<and> map (\<lambda>i. Some (Inr (quantity i))) items
         = map (\<lambda>ip. map_option py_int (ip_quantity ip)) ips"
  by (induction ips arbitrary: items) (auto split: option.splits sum.splits)

lemma append_entry_store:
  "append_entry cb t p items = (r, cb') \<Longrightarrow>
     (r \<noteq> Inr (EmptyBody, 200) \<and> cb' = cb) \<or> t \<notin> set [''recipe'', ''ingredient''] \<or>
     (r = Inr (EmptyBody, 200) \<and> (\<exists>e. cb' = cb @ [e] \<and> p_name p = Some (name e)))"
  by (auto simp: append_entry_def split: option.splits if_splits)

lemma create_entry_store:
  "create_entry cb p = (r, cb') \<Longrightarrow>
     (r \<noteq> Inr (EmptyBody, 200) \<and> cb' = cb) \<or>
     (r = Inr (EmptyBody, 200) \<and> (\<exists>e. cb' = cb @ [e] \<and> name e \<notin> name ` set cb))"
proof -
  assume c: "create_entry cb p = (r, cb')"
  show ?thesis
  proof (cases "p_type p")
    case None
    with c show ?thesis by (auto simp: create_entry_def)
  next
    case (Some t)
    show ?thesis
    proof (cases "t \<notin> set [''recipe'', ''ingredient''] \<or> (t = ''recipe'' \<and> p_requiredItems p = None)")
      case True
      with c Some show ?thesis by (auto simp: create_entry_def)
    next
      case False
      then have t: "t \<in> set [''recipe'', ''ingredient'']"
        and nr: "\<not> (t = ''recipe'' \<and> p_requiredItems p = None)" by auto
      show ?thesis
      proof (cases "cook_time_negative t p")
        case (Inl e)
        with c Some t nr show ?thesis by (auto simp: create_entry_def)
      next
        case (Inr neg)
        note ct = this
        show ?thesis
        proof (cases neg)
          case True
          with c Some t nr ct show ?thesis by (auto simp: create_entry_def)
        next
          case False
          note notneg = this
          show ?thesis
          proof (cases "name_exists cb (p_name p)")
            case (Inl e)
            with c Some t nr ct notneg show ?thesis by (auto simp: create_entry_def)
          next
            case (Inr ex)
            note ne = this
            show ?thesis
            proof (cases ex)
              case True
              with c Some t nr ct notneg ne show ?thesis by (auto simp: create_entry_def)
            next
              case False
              note fresh = this
              show ?thesis
              proof (cases "required_items_of t p")
                case (Inl e)
                with c Some t nr ct notneg ne fresh show ?thesis by (auto simp: create_entry_def)
              next
                case (Inr items)
                show ?thesis
                proof (cases "validate_required_items items")
                  case True
                  with c Some t nr ct notneg ne fresh Inr show ?thesis
                    by (auto simp: create_entry_def)
                next
                  case False
                  with c Some t nr ct notneg ne fresh Inr
                  have a: "append_entry cb t p items = (r, cb')"
                    by (auto simp: create_entry_def)
                  from append_entry_store[OF a] t
                  consider "r \<noteq> Inr (EmptyBody, 200)" "cb' = cb"
                    | e where "r = Inr (EmptyBody, 200)" "cb' = cb @ [e]" "p_name p = Some (name e)"
                    by blast
                  then show ?thesis
                  proof cases
                    case 1
                    then show ?thesis by simp
                  next
                    case 2
                    with ne fresh have "name e \<notin> name ` set cb"
                      by (simp add: name_exists_Some)
                    with 2 show ?thesis by blast
                  qed
                qed
              qed
            qed
          qed
        qed
      qed
    qed
  qed
qed

lemma create_entry_distinct:
  "distinct (map name cb) \<Longrightarrow> distinct (map name (snd (create_entry cb p)))"
proof -
  assume d: "distinct (map name cb)"
  obtain r cb' where c: "create_entry cb p = (r, cb')" by (cases "create_entry cb p")
  from create_entry_store[OF c] d have "distinct (map name cb')" by auto
  with c show ?thesis by simp
qed

lemma create_entries_distinct:
  "distinct (map name cb) \<Longrightarrow> distinct (map name (create_entries cb ps))"
  by (induction ps arbitrary: cb) (auto simp: create_entry_distinct)

lemma duplicate_name_rejected:
  assumes "entry_payload p" and "p_name p = Some n" and "n \<in> name ` set cb"
  shows "create_entry cb p = (Inr (ErrorBody msg_duplicate_name, 400), cb)"
proof -
  from assms(1) obtain t where t: "p_type p = Some t" "t = ''ingredient'' \<or> t = ''recipe''"
    by (auto simp: entry_payload_def split: option.splits if_splits)
  from assms(1) t have r: "\<not> (t = ''recipe'' \<and> p_requiredItems p = None)"
    by (auto simp: entry_payload_def)
  from assms(1) t have c: "cook_time_negative t p = Inr False"
    by (auto simp: entry_payload_def cook_time_negative_def split: option.splits)
  from assms(2,3) have e: "name_exists cb (p_name p) = Inr True" by (simp add: name_exists_Some)
  from t r c e show ?thesis by (auto simp: create_entry_def)
qed

lemma salt_created: "create_entries [] [pl_salt] = [Ingredient ''Salt'' 2]"
  by (simp add: pl_salt_def create_entry_def cook_time_negative_def required_items_of_def
      validate_required_items_def append_entry_def)

lemma build_required_items_total:
  "None \<notin> set (map ip_name ips) \<Longrightarrow>
   (\<And>ip. ip \<in> set ips \<Longrightarrow> \<exists>i. map_option py_int (ip_quantity ip) = Some (Inr i)) \<Longrightarrow>
   \<exists>items. build_required_items ips = Inr items"
proof (induction ips)
  case Nil
  then show ?case by simp
next
  case (Cons ip ips)
  from Cons.prems(1) obtain n where n: "ip_name ip = Some n" by (cases "ip_name ip") auto
  from Cons.prems(2)[of ip] obtain v i where v: "ip_quantity ip = Some v" "py_int v = Inr i"
    by (cases "ip_quantity ip") auto
  from Cons.prems have "\<exists>items. build_required_items ips = Inr items"
    by (intro Cons.IH) auto
  with n v show ?case by auto
qed

lemma recipe_accepted:
  assumes "create_entry cb p = (Inr (EmptyBody, 200), cb')" and "p_type p = Some ''recipe''"
  shows "\<exists>n ips items. p_name p = Some n \<and> p_requiredItems p = Some ips \<and>
           name_exists cb (Some n) = Inr False \<and>
           build_required_items ips = Inr items \<and> \<not> validate_required_items items \<and>
           cb' = cb @ [Recipe n items]"
proof -
  from assms obtain ips where ips: "p_requiredItems p = Some ips"
    by (cases "p_requiredItems p") (auto simp: create_entry_def)
  have c: "cook_time_negative ''recipe'' p = Inr False" by (simp add: cook_time_negative_def)
  from assms ips c obtain ex where ex: "name_exists cb (p_name p) = Inr ex"
    by (cases "name_exists cb (p_name p)") (auto simp: create_entry_def)
  with assms ips c have fresh: "\<not> ex" by (cases ex) (auto simp: create_entry_def)
  from assms ips c ex fresh obtain items where items: "build_required_items ips = Inr items"
    by (cases "build_required_items ips") (auto simp: create_entry_def required_items_of_def)
  with assms ips c ex fresh have v: "\<not> validate_required_items items"
    by (cases "validate_required_items items") (auto simp: create_entry_def required_items_of_def)
  with assms ips c ex fresh items
  have a: "append_entry cb ''recipe'' p items = (Inr (EmptyBody, 200), cb')"
    by (auto simp: create_entry_def required_items_of_def)
  then obtain n where n: "p_name p = Some n"
    by (cases "p_name p") (auto simp: append_entry_def)
  with a have "cb' = cb @ [Recipe n items]" by (simp add: append_entry_def)
  with n ips ex fresh items v show ?thesis by auto
qed

lemma recipe_accept:
  assumes "p_type p = Some ''recipe''" and "p_name p = Some n" and "p_requiredItems p = Some ips"
    and "name_exists cb (Some n) = Inr False" and "build_required_items ips = Inr items"
    and "\<not> validate_required_items items"
  shows "create_entry cb p = (Inr (EmptyBody, 200), cb @ [Recipe n items])"
  using assms
  by (simp add: create_entry_def cook_time_negative_def required_items_of_def append_entry_def)

lemma floor_27_10: "\<lfloor>27 / 10 :: rat\<rfloor> = 2"
  by (rule floor_unique) simp_all

lemma ceiling_minus_27_10: "\<lceil>- (27 / 10) :: rat\<rceil> = - 2"
  by (rule ceiling_unique) simp_all

text \<open>A quantity that \<^verbatim>\<open>int()\<close> does not convert ends the request in its exception.\<close>

lemma unconvertible_quantity_raises:
  "create_entry cb
     \<lparr>p_type = Some ''recipe'', p_name = Some ''Broth'', p_cookTime = None,
      p_requiredItems = Some [\<lparr>ip_name = Some ''Bone'', ip_quantity = Some (JStr ''abc'' None)\<rparr>]\<rparr>
   = (if ''Broth'' \<in> name ` set cb then Inr (ErrorBody msg_duplicate_name, 400)
      else Inl ValueError, cb)"
  "create_entry cb
     \<lparr>p_type = Some ''recipe'', p_name = Some ''Broth'', p_cookTime = None,
      p_requiredItems = Some [\<lparr>ip_name = Some ''Bone'', ip_quantity = Some JNull\<rparr>]\<rparr>
   = (if ''Broth'' \<in> name ` set cb then Inr (ErrorBody msg_duplicate_name, 400)
      else Inl TypeError, cb)"
  by (simp_all add: create_entry_def cook_time_negative_def name_exists_Some
      required_items_of_def)

subsection \<open>Responses\<close>










text \<open>The answer under a recursion limit is the answer of the run within the limit,
  or the rejection that line 157 makes of the \<^verbatim>\<open>RecursionError\<close>.\<close>

lemma summary_at_limit_eq:
  "summary_at_limit limit rtext cb q =
     (case summary limit cb q of
        None \<Rightarrow> Inr (ErrorBody rtext, 400)
      | Some answer \<Rightarrow> answer)"
  by (simp add: summary_at_limit_def summary_def resolve_at_limit_def
      split: sum.splits option.splits)
section \<open>The claims\<close>

text \<open>
  C1. When the expansion of a target recipe succeeds, the mapping it returns has one key
  for each base ingredient that occurs in the expansion tree, and maps it to the sum, over
  its occurrences, of the product of the quantities along the path from the target. The
  tree is the same at every depth from the recursion budget on, so nothing of it is cut
  off. The witness is the specification's example: Bread requires three Dough, Dough
  requires two Flour, and the result is six Flour.
\<close>

theorem resolve_sums_over_expansion:
  assumes "get_base_ingredients fuel cb (Recipe n items) 1 = Some (Inr d)"
  shows "distinct (map fst d) \<and>
    (\<forall>depth\<ge>fuel. fst ` set d = fst ` set (occurrences depth cb items) \<and>
       (\<forall>(k, v) \<in> set d. v = total_quantity (occurrences depth cb items) k))"
proof -
  from expansion_sums(1)[of fuel cb "Recipe n items" 1 d] assms
  have dist: "distinct (map fst d)"
    and keys: "fst ` set d = fst ` set (occurrences (fuel - 1) cb items)"
    and vals: "\<And>k. dict_get d k 0 = total_quantity (occurrences (fuel - 1) cb items) k"
    by simp_all
  have same: "occurrences depth cb items = occurrences (fuel - 1) cb items" if "fuel \<le> depth" for depth
  proof -
    from that have "depth = fuel - 1 + (depth - (fuel - 1))" by simp
    with occurrences_stable(1)[of fuel cb "Recipe n items" 1 d "depth - (fuel - 1)"] assms
    show ?thesis by simp
  qed
  have "v = total_quantity (occurrences (fuel - 1) cb items) k" if "(k, v) \<in> set d" for k v
    using dict_get_present[OF dist that, of 0] vals[of k] by simp
  with dist keys same show ?thesis by auto
qed

theorem resolve_sums_over_expansion_witness:
  "get_base_ingredients 3 cb_bread (Recipe ''Bread'' [RequiredItem ''Dough'' 3]) 1
     = Some (Inr [(''Flour'', 6)])
   \<and> total_quantity (occurrences 3 cb_bread [RequiredItem ''Dough'' 3]) ''Flour'' = 6"
proof -
  have run: "get_base_ingredients 3 cb_bread (Recipe ''Bread'' [RequiredItem ''Dough'' 3]) 1
     = Some (Inr [(''Flour'', 6)])"
    by (simp add: cb_bread_def numeral_3_eq_3)
  from resolve_sums_over_expansion[OF run] show ?thesis using run by simp
qed

text \<open>
  C6. For a mapping returned by a successful resolution over a store with unique names,
  \<^verbatim>\<open>get_total_cook_time\<close> returns the sum over its pairs of the stored cook time
  times the quantity, and it returns 0 for the empty mapping.
\<close>

theorem total_cook_time_sum:
  assumes "distinct (map name cb)"
    and "get_base_ingredients fuel cb (Recipe n items) m = Some (Inr d)"
  shows "get_total_cook_time cb d = Inr (\<Sum>(k, q) \<leftarrow> d. stored_cook_time cb k * q)
       \<and> get_total_cook_time cb [] = Inr 0"
proof -
  from expansion_sums(1)[of fuel cb "Recipe n items" m d] assms(2)
  have keys: "fst ` set d = fst ` set (occurrences (fuel - 1) cb items)" by simp
  have ingr: "\<exists>n c. find_entry cb k = Some (Ingredient n c)" if "k \<in> fst ` set d" for k
  proof -
    from that keys have "k \<in> fst ` set (occurrences (fuel - 1) cb items)" by simp
    then obtain p where "(k, p) \<in> set (occurrences (fuel - 1) cb items)" by force
    then show ?thesis by (rule occurrences_ingredient)
  qed
  have "cook_time_loop cb d 0 = Inr (0 + (\<Sum>(k, q) \<leftarrow> d. stored_cook_time cb k * q))"
    using assms(1) ingr by (rule cook_time_loop_sum)
  then show ?thesis by (simp add: get_total_cook_time_def)
qed

theorem total_cook_time_sum_witness:
  "distinct (map name cb_bread)
   \<and> get_base_ingredients 3 cb_bread (Recipe ''Bread'' [RequiredItem ''Dough'' 3]) 1
       = Some (Inr [(''Flour'', 6)])
   \<and> get_total_cook_time cb_bread [(''Flour'', 6)] = Inr 6"
proof -
  have d: "distinct (map name cb_bread)" by (simp add: cb_bread_def)
  have run: "get_base_ingredients 3 cb_bread (Recipe ''Bread'' [RequiredItem ''Dough'' 3]) 1
     = Some (Inr [(''Flour'', 6)])"
    by (simp add: cb_bread_def numeral_3_eq_3)
  from total_cook_time_sum[OF d run] have
    "get_total_cook_time cb_bread [(''Flour'', 6)] = Inr (stored_cook_time cb_bread ''Flour'' * 6)"
    by simp
  moreover have "stored_cook_time cb_bread ''Flour'' = 1"
    by (simp add: stored_cook_time_def cb_bread_def)
  ultimately show ?thesis using d run by simp
qed

text \<open>
  C10. In a store with unique names, the summary of a recipe whose list of required items
  is empty succeeds with status 200, an empty ingredient mapping and cook time 0, as soon
  as the budget allows the one call of the resolver.
\<close>

theorem summary_of_empty_recipe:
  assumes "distinct (map name cb)" and "Recipe n [] \<in> set cb"
  shows "summary (Suc fuel) cb n = Some (Inr (SummaryBody n 0 [], 200))"
  using assms by (simp add: summary_def summary_scan_recipe get_total_cook_time_def)

theorem summary_of_empty_recipe_witness:
  "distinct (map name [Ingredient ''Salt'' 2, Recipe ''Water'' []])
   \<and> Recipe ''Water'' [] \<in> set [Ingredient ''Salt'' 2, Recipe ''Water'' []]
   \<and> summary 1 [Ingredient ''Salt'' 2, Recipe ''Water'' []] ''Water''
       = Some (Inr (SummaryBody ''Water'' 0 [], 200))"
proof -
  have d: "distinct (map name [Ingredient ''Salt'' 2, Recipe ''Water'' []])" by simp
  have m: "Recipe ''Water'' [] \<in> set [Ingredient ''Salt'' 2, Recipe ''Water'' []]" by simp
  from summary_of_empty_recipe[OF d m, of 0] show ?thesis using d m by simp
qed

text \<open>
  C4. When the expansion of a stored recipe reaches a required-item name that has no
  entry in the store, the resolver raises the missing-dependency exception for every
  budget from some budget on, the summary answers with status 400 and that exception's
  text, and no budget makes the resolver return a mapping.
\<close>

theorem missing_dependency_fails:
  assumes "distinct (map name cb)" and "Recipe n items \<in> set cb"
    and "reaches cb 1 items x" and "find_entry cb x = None"
  shows "(\<exists>f0. \<forall>fuel\<ge>f0.
            get_base_ingredients fuel cb (Recipe n items) 1 = Some (Inl MissingDependency) \<and>
            summary fuel cb n = Some (Inr (ErrorBody (str MissingDependency), 400)))
       \<and> (\<forall>fuel d. get_base_ingredients fuel cb (Recipe n items) 1 \<noteq> Some (Inr d))"
proof -
  from reaches_missing[OF assms(3,4)] obtain f0 where
    f0: "\<And>f base. f0 \<le> f \<Longrightarrow> items_loop f cb items 1 base = Some (Inl MissingDependency)"
    by blast
  have run: "get_base_ingredients fuel cb (Recipe n items) 1 = Some (Inl MissingDependency)"
    if "Suc f0 \<le> fuel" for fuel
  proof -
    from that obtain f where "fuel = Suc f" "f0 \<le> f" by (cases fuel) auto
    with f0[of f "[]"] show ?thesis by simp
  qed
  have scan: "summary_scan cb n None = Inr (Some (Recipe n items))"
    using assms(1,2) by (rule summary_scan_recipe)
  have resp: "summary fuel cb n = Some (Inr (ErrorBody (str MissingDependency), 400))"
    if "Suc f0 \<le> fuel" for fuel
    using run[OF that] scan by (simp add: summary_def)
  have never: "get_base_ingredients fuel cb (Recipe n items) 1 \<noteq> Some (Inr d)" for fuel d
  proof
    assume "get_base_ingredients fuel cb (Recipe n items) 1 = Some (Inr d)"
    with fuel_mono(1)[of fuel cb "Recipe n items" 1 "Inr d" "Suc f0"]
    have "get_base_ingredients (fuel + Suc f0) cb (Recipe n items) 1 = Some (Inr d)" by simp
    moreover have "get_base_ingredients (fuel + Suc f0) cb (Recipe n items) 1
        = Some (Inl MissingDependency)"
      by (rule run) simp
    ultimately show False by simp
  qed
  from run resp never show ?thesis by blast
qed

theorem missing_dependency_fails_witness:
  "distinct (map name cb_soup)
   \<and> Recipe ''Soup'' [RequiredItem ''Salt'' 1, RequiredItem ''Stock'' 2] \<in> set cb_soup
   \<and> reaches cb_soup 1 [RequiredItem ''Salt'' 1, RequiredItem ''Stock'' 2] ''Stock''
   \<and> find_entry cb_soup ''Stock'' = None
   \<and> (\<exists>f0. \<forall>fuel\<ge>f0. summary fuel cb_soup ''Soup''
          = Some (Inr (ErrorBody (str MissingDependency), 400)))
   \<and> summary 1 cb_soup ''Soup'' = Some (Inr (ErrorBody (str MissingDependency), 400))"
proof -
  have d: "distinct (map name cb_soup)" by (simp add: cb_soup_def)
  have m: "Recipe ''Soup'' [RequiredItem ''Salt'' 1, RequiredItem ''Stock'' 2] \<in> set cb_soup"
    by (simp add: cb_soup_def)
  have salt: "find_entry cb_soup (item_name (RequiredItem ''Salt'' 1)) = Some (Ingredient ''Salt'' 2)"
    by (simp add: cb_soup_def)
  have "reaches cb_soup 1 [RequiredItem ''Stock'' 2] (item_name (RequiredItem ''Stock'' 2))"
    by (rule reaches.here)
  with salt have "reaches cb_soup 1 [RequiredItem ''Salt'' 1, RequiredItem ''Stock'' 2]
      (item_name (RequiredItem ''Stock'' 2))"
    by (rule reaches.past_ingredient)
  then have r: "reaches cb_soup 1 [RequiredItem ''Salt'' 1, RequiredItem ''Stock'' 2] ''Stock''"
    by simp
  have f: "find_entry cb_soup ''Stock'' = None" by (simp add: cb_soup_def)
  have s: "summary 1 cb_soup ''Soup'' = Some (Inr (ErrorBody (str MissingDependency), 400))"
    by (simp add: summary_def cb_soup_def)
  from missing_dependency_fails[OF d m r f] d m r f s show ?thesis by blast
qed

text \<open>
  C7, as the code has it. Over a store whose requirement graph is acyclic the expansion
  of any recipe needs a bounded number of nested calls: from some recursion limit on it
  gives one and the same result (a mapping or an exception). When a cycle of the graph is
  reachable from a stored target recipe, no limit lets the expansion return a mapping, and
  there is no cycle detection. Either the expansion reaches a name with no entry, and then
  it raises the missing-dependency exception from some limit on; or it reaches none, and
  then under every limit it runs into the interpreter's \<^verbatim>\<open>RecursionError\<close>, which
  line 157 catches, so that the summary answers with status 400 and the interpreter's
  message.
\<close>

theorem expansion_termination:
  "(acyclic (requires cb) \<longrightarrow>
      (\<exists>f0 r. \<forall>limit\<ge>f0. get_base_ingredients limit cb (Recipe n items) m = Some r))
   \<and> (find_entry cb n = Some (Recipe n items) \<and>
        (n, c) \<in> (requires cb)\<^sup>* \<and> (c, c) \<in> (requires cb)\<^sup>+ \<longrightarrow>
         (\<forall>limit d. get_base_ingredients limit cb (Recipe n items) m \<noteq> Some (Inr d))
       \<and> ((\<exists>x. reaches cb m items x \<and> find_entry cb x = None) \<longrightarrow>
            (\<exists>f0. \<forall>limit\<ge>f0. get_base_ingredients limit cb (Recipe n items) m
                     = Some (Inl MissingDependency)))
       \<and> (\<not> (\<exists>x. reaches cb m items x \<and> find_entry cb x = None) \<longrightarrow>
            (\<forall>limit text. resolve_at_limit limit text cb (Recipe n items) m
                     = Inl (RecursionError text))
          \<and> (m = 1 \<and> distinct (map name cb) \<longrightarrow>
               (\<forall>limit text. summary_at_limit limit text cb n = Inr (ErrorBody text, 400)))))"
proof (intro conjI impI)
  assume "acyclic (requires cb)"
  then show "\<exists>f0 r. \<forall>limit\<ge>f0. get_base_ingredients limit cb (Recipe n items) m = Some r"
    by (rule acyclic_stable)
next
  assume h: "find_entry cb n = Some (Recipe n items) \<and>
    (n, c) \<in> (requires cb)\<^sup>* \<and> (c, c) \<in> (requires cb)\<^sup>+"
  then have f: "find_entry cb n = Some (Recipe n items)"
    and p: "(n, c) \<in> (requires cb)\<^sup>*" and cy: "(c, c) \<in> (requires cb)\<^sup>+" by simp_all
  show "\<forall>limit d. get_base_ingredients limit cb (Recipe n items) m \<noteq> Some (Inr d)"
    using cycle_no_mapping[OF f p cy] by blast
  {
    assume "\<exists>x. reaches cb m items x \<and> find_entry cb x = None"
    then show "\<exists>f0. \<forall>limit\<ge>f0. get_base_ingredients limit cb (Recipe n items) m
                     = Some (Inl MissingDependency)"
      using missing_stable by blast
  }
  assume nm: "\<not> (\<exists>x. reaches cb m items x \<and> find_entry cb x = None)"
  have none: "get_base_ingredients limit cb (Recipe n items) m = None" for limit
    using f p cy nm by (rule cycle_exceeds_limit)
  then show r: "\<forall>limit text. resolve_at_limit limit text cb (Recipe n items) m
                     = Inl (RecursionError text)"
    by (simp add: resolve_at_limit_def)
  assume d: "m = 1 \<and> distinct (map name cb)"
  from f have "Recipe n items \<in> set cb" by (auto dest: find_entry_Some)
  with d r show "\<forall>limit text. summary_at_limit limit text cb n = Inr (ErrorBody text, 400)"
    by (simp add: summary_at_limit_recipe)
qed

theorem expansion_termination_witness:
  "acyclic (requires cb_bread)
   \<and> (\<exists>f0 r. \<forall>limit\<ge>f0. get_base_ingredients limit cb_bread
          (Recipe ''Bread'' [RequiredItem ''Dough'' 3]) 1 = Some r)
   \<and> (''A'', ''A'') \<in> (requires cb_cycle)\<^sup>+
   \<and> (\<forall>limit text. summary_at_limit limit text cb_cycle ''A'' = Inr (ErrorBody text, 400))
   \<and> (''A'', ''A'') \<in> (requires cb_loop)\<^sup>+
   \<and> (\<forall>limit text. summary_at_limit limit text cb_loop ''A'' = Inr (ErrorBody text, 400))
   \<and> (''A'', ''A'') \<in> (requires cb_cut)\<^sup>+
   \<and> reaches cb_cut 1 [RequiredItem ''Missing'' 1, RequiredItem ''A'' 1] ''Missing''
   \<and> (\<exists>f0. \<forall>limit\<ge>f0. get_base_ingredients limit cb_cut
          (Recipe ''A'' [RequiredItem ''Missing'' 1, RequiredItem ''A'' 1]) 1
            = Some (Inl MissingDependency))"
proof -
  from expansion_termination[where cb = cb_bread and n = "''Bread''"
      and items = "[RequiredItem ''Dough'' 3]" and m = 1] acyclic_bread
  have bread: "\<exists>f0 r. \<forall>limit\<ge>f0. get_base_ingredients limit cb_bread
          (Recipe ''Bread'' [RequiredItem ''Dough'' 3]) 1 = Some r" by blast
  have fc: "find_entry cb_cycle ''A'' = Some (Recipe ''A'' [RequiredItem ''B'' 1])"
    by (simp add: cb_cycle_def)
  have dc: "distinct (map name cb_cycle)" by (simp add: cb_cycle_def)
  from expansion_termination[where cb = cb_cycle and n = "''A''"
      and items = "[RequiredItem ''B'' 1]" and c = "''A''" and m = 1]
    fc cycle_in_cycle cycle_reaches_no_missing dc
  have cyc: "\<forall>limit text. summary_at_limit limit text cb_cycle ''A'' = Inr (ErrorBody text, 400)"
    by blast
  have fl: "find_entry cb_loop ''A''
      = Some (Recipe ''A'' [RequiredItem ''A'' 1, RequiredItem ''Missing'' 1])"
    by (simp add: cb_loop_def)
  have dl: "distinct (map name cb_loop)" by (simp add: cb_loop_def)
  have "(''A'', ''A'') \<in> requires cb_loop" by (simp add: requires_loop)
  then have cl: "(''A'', ''A'') \<in> (requires cb_loop)\<^sup>+" by (rule r_into_trancl)
  from expansion_termination[where cb = cb_loop and n = "''A''"
      and items = "[RequiredItem ''A'' 1, RequiredItem ''Missing'' 1]" and c = "''A''" and m = 1]
    fl cl loop_reaches_no_missing dl
  have loop: "\<forall>limit text. summary_at_limit limit text cb_loop ''A'' = Inr (ErrorBody text, 400)"
    by blast
  have fx: "find_entry cb_cut ''A''
      = Some (Recipe ''A'' [RequiredItem ''Missing'' 1, RequiredItem ''A'' 1])"
    by (simp add: cb_cut_def)
  have "(''A'', ''A'') \<in> requires cb_cut" by (simp add: requires_cut)
  then have cx: "(''A'', ''A'') \<in> (requires cb_cut)\<^sup>+" by (rule r_into_trancl)
  have "reaches cb_cut 1 [RequiredItem ''Missing'' 1, RequiredItem ''A'' 1]
      (item_name (RequiredItem ''Missing'' 1))" by (rule reaches.here)
  then have rx: "reaches cb_cut 1 [RequiredItem ''Missing'' 1, RequiredItem ''A'' 1] ''Missing''"
    by simp
  have mx: "find_entry cb_cut ''Missing'' = None" by (simp add: cb_cut_def)
  from expansion_termination[where cb = cb_cut and n = "''A''"
      and items = "[RequiredItem ''Missing'' 1, RequiredItem ''A'' 1]" and c = "''A''" and m = 1]
    fx cx rx mx
  have cut: "\<exists>f0. \<forall>limit\<ge>f0. get_base_ingredients limit cb_cut
          (Recipe ''A'' [RequiredItem ''Missing'' 1, RequiredItem ''A'' 1]) 1
            = Some (Inl MissingDependency)" by blast
  from acyclic_bread bread cycle_in_cycle cyc cl loop cx rx cut show ?thesis by blast
qed

text \<open>
  C7 as stated fails: a cycle reachable from the target does not make the expansion run
  forever. Recipe A of the first store requires an unknown name and then itself, and its
  expansion stops at the unknown name with the missing-dependency exception. The two
  recipes of the second store require each other, and the summary of one of them ends
  with an answer: status 400 and the message of the \<^verbatim>\<open>RecursionError\<close>.
\<close>

theorem cycle_cut_short_counterexample:
  "find_entry cb_cut ''A''
     = Some (Recipe ''A'' [RequiredItem ''Missing'' 1, RequiredItem ''A'' 1])
   \<and> (''A'', ''A'') \<in> (requires cb_cut)\<^sup>+
   \<and> get_base_ingredients 1 cb_cut
        (Recipe ''A'' [RequiredItem ''Missing'' 1, RequiredItem ''A'' 1]) 1
       = Some (Inl MissingDependency)
   \<and> (''A'', ''A'') \<in> (requires cb_cycle)\<^sup>+
   \<and> summary_at_limit 3 ''maximum recursion depth exceeded'' cb_cycle ''A''
       = Inr (ErrorBody ''maximum recursion depth exceeded'', 400)"
proof -
  have "(''A'', ''A'') \<in> requires cb_cut" by (simp add: requires_cut)
  then have c: "(''A'', ''A'') \<in> (requires cb_cut)\<^sup>+" by (rule r_into_trancl)
  have s: "summary_at_limit 3 ''maximum recursion depth exceeded'' cb_cycle ''A''
       = Inr (ErrorBody ''maximum recursion depth exceeded'', 400)"
    by (simp add: summary_at_limit_def resolve_at_limit_def cb_cycle_def numeral_3_eq_3)
  from c s cycle_in_cycle show ?thesis by (simp add: cb_cut_def)
qed

text \<open>
  C2. After any sequence of creation requests no two entries of the store share a name,
  and a request that carries an entry of the data model under a name the store already
  holds is answered with the duplicate-name rejection and leaves the store as it was.
\<close>

theorem entry_names_unique:
  "distinct (map name (create_entries [] ps)) \<and>
   (entry_payload p \<and> p_name p = Some n \<and> n \<in> name ` set (create_entries [] ps) \<longrightarrow>
      create_entry (create_entries [] ps) p
        = (Inr (ErrorBody msg_duplicate_name, 400), create_entries [] ps))"
proof
  show "distinct (map name (create_entries [] ps))"
    by (rule create_entries_distinct) simp
  show "entry_payload p \<and> p_name p = Some n \<and> n \<in> name ` set (create_entries [] ps) \<longrightarrow>
      create_entry (create_entries [] ps) p
        = (Inr (ErrorBody msg_duplicate_name, 400), create_entries [] ps)"
    using duplicate_name_rejected by blast
qed

theorem entry_names_unique_witness:
  "create_entries [] [pl_salt] = [Ingredient ''Salt'' 2]
   \<and> entry_payload pl_salt_again \<and> p_name pl_salt_again = Some ''Salt''
   \<and> ''Salt'' \<in> name ` set (create_entries [] [pl_salt])
   \<and> create_entry (create_entries [] [pl_salt]) pl_salt_again
        = (Inr (ErrorBody msg_duplicate_name, 400), [Ingredient ''Salt'' 2])"
proof -
  have e: "entry_payload pl_salt_again" by (simp add: entry_payload_def pl_salt_again_def)
  have n: "p_name pl_salt_again = Some ''Salt''" by (simp add: pl_salt_again_def)
  have m: "''Salt'' \<in> name ` set (create_entries [] [pl_salt])"
    unfolding salt_created by simp
  from entry_names_unique[of "[pl_salt]" pl_salt_again "''Salt''"] e n m
  have "create_entry (create_entries [] [pl_salt]) pl_salt_again
        = (Inr (ErrorBody msg_duplicate_name, 400), create_entries [] [pl_salt])" by blast
  with e n m show ?thesis unfolding salt_created by simp
qed

text \<open>
  C3. An ingredient request with no \<^verbatim>\<open>cookTime\<close> key is not rejected: line 82 subscripts
  the payload before any test for the key (as lines 74 and 79 make for \<^verbatim>\<open>type\<close> and
  \<^verbatim>\<open>requiredItems\<close>), and the \<^verbatim>\<open>KeyError\<close> leaves the function, whatever the store holds.
\<close>

theorem missing_cook_time_raises:
  "create_entry cb pl_no_cook_time = (Inl (KeyError ''cookTime''), cb)"
  by (simp add: create_entry_def pl_no_cook_time_def cook_time_negative_def)

text \<open>
  C8, as the code has it. A recipe that is accepted is stored with the names of its
  payload and, for each required item, the integer that \<^verbatim>\<open>int()\<close> makes of the payload's
  quantity. No test is made on that integer: the same request with any other quantities
  that \<^verbatim>\<open>int()\<close> converts, of whatever sign, is accepted as well.
\<close>

theorem recipe_quantities_int_of_payload:
  assumes "create_entry cb p = (Inr (EmptyBody, 200), cb')" and "p_type p = Some ''recipe''"
  shows "\<exists>n ips items. p_name p = Some n \<and> p_requiredItems p = Some ips \<and>
           cb' = cb @ [Recipe n items] \<and>
           map (Some \<circ> item_name) items = map ip_name ips \<and>
           map (\<lambda>i. Some (Inr (quantity i))) items
             = map (\<lambda>ip. map_option py_int (ip_quantity ip)) ips \<and>
           (\<forall>ips'. map ip_name ips' = map ip_name ips \<and>
                   (\<forall>ip\<in>set ips'. \<exists>i. map_option py_int (ip_quantity ip) = Some (Inr i)) \<longrightarrow>
              (\<exists>items'. create_entry cb (p\<lparr>p_requiredItems := Some ips'\<rparr>)
                 = (Inr (EmptyBody, 200), cb @ [Recipe n items'])))"
proof -
  from recipe_accepted[OF assms] obtain n ips items where
    n: "p_name p = Some n" and ips: "p_requiredItems p = Some ips"
    and fresh: "name_exists cb (Some n) = Inr False"
    and b: "build_required_items ips = Inr items"
    and v: "\<not> validate_required_items items"
    and cb': "cb' = cb @ [Recipe n items]"
    by blast
  from build_required_items_Inr[OF b]
  have names: "map (Some \<circ> item_name) items = map ip_name ips"
    and quants: "map (\<lambda>i. Some (Inr (quantity i))) items
        = map (\<lambda>ip. map_option py_int (ip_quantity ip)) ips" by simp_all
  have other: "\<exists>items'. create_entry cb (p\<lparr>p_requiredItems := Some ips'\<rparr>)
                 = (Inr (EmptyBody, 200), cb @ [Recipe n items'])"
    if same: "map ip_name ips' = map ip_name ips"
      and q: "\<forall>ip\<in>set ips'. \<exists>i. map_option py_int (ip_quantity ip) = Some (Inr i)"
    for ips'
  proof -
    from same names have "set (map ip_name ips') = set (map (Some \<circ> item_name) items)" by simp
    then have "None \<notin> set (map ip_name ips')" by auto
    from this q obtain items' where
      b': "build_required_items ips' = Inr items'"
      using build_required_items_total[of ips'] by blast
    from build_required_items_Inr[OF b'] same names
    have "map (Some \<circ> item_name) items' = map (Some \<circ> item_name) items" by simp
    then have "map Some (map item_name items') = map Some (map item_name items)" by simp
    then have "map item_name items' = map item_name items"
      by (simp only: inj_map_eq_map[OF inj_Some])
    with v have v': "\<not> validate_required_items items'"
      by (simp add: validate_required_items_iff)
    have "create_entry cb (p\<lparr>p_requiredItems := Some ips'\<rparr>)
            = (Inr (EmptyBody, 200), cb @ [Recipe n items'])"
      using assms(2) n fresh b' v' by (intro recipe_accept) simp_all
    then show ?thesis by blast
  qed
  from n ips cb' names quants other show ?thesis by blast
qed

theorem recipe_quantities_int_of_payload_witness:
  "create_entry [] pl_stew
     = (Inr (EmptyBody, 200),
        [Recipe ''Stew'' [RequiredItem ''Beef'' 2, RequiredItem ''Bone'' (- 2),
                          RequiredItem ''Leek'' 3, RequiredItem ''Salt'' 1]])
   \<and> p_type pl_stew = Some ''recipe''
   \<and> (\<exists>n ips items. p_name pl_stew = Some n \<and> p_requiredItems pl_stew = Some ips \<and>
         map (\<lambda>i. Some (Inr (quantity i))) items
           = map (\<lambda>ip. map_option py_int (ip_quantity ip)) ips)"
proof -
  have c: "create_entry [] pl_stew
     = (Inr (EmptyBody, 200),
        [Recipe ''Stew'' [RequiredItem ''Beef'' 2, RequiredItem ''Bone'' (- 2),
                          RequiredItem ''Leek'' 3, RequiredItem ''Salt'' 1]])"
    by (simp add: pl_stew_def create_entry_def cook_time_negative_def required_items_of_def
        validate_required_items_def append_entry_def floor_27_10 ceiling_minus_27_10)
  have t: "p_type pl_stew = Some ''recipe''" by (simp add: pl_stew_def)
  from recipe_quantities_int_of_payload[OF c t] c t show ?thesis by blast
qed

text \<open>
  C8 as stated fails: a recipe whose required items have the quantities 0 and -2 is
  accepted and stored with them.
\<close>

theorem nonpositive_quantity_admitted_counterexample:
  "create_entry [] pl_soup
     = (Inr (EmptyBody, 200), [Recipe ''Soup'' [RequiredItem ''Water'' 0, RequiredItem ''Salt'' (- 2)]])"
  by (simp add: pl_soup_def create_entry_def cook_time_negative_def required_items_of_def
      validate_required_items_def append_entry_def)

text \<open>
  C9. A request that carries an entry of the data model but no \<^verbatim>\<open>name\<close> key ends in a
  \<^verbatim>\<open>KeyError\<close> for \<^verbatim>\<open>name\<close> and not in a rejection: in the scan of lines 85-87 when
  the store is not empty, and for an ingredient also when it is empty (line 115).
\<close>

theorem missing_name_raises:
  assumes "entry_payload p" and "p_name p = None"
    and "cb \<noteq> [] \<or> p_type p = Some ''ingredient''"
  shows "create_entry cb p = (Inl (KeyError ''name''), cb)"
proof -
  from assms(1) obtain t where t: "p_type p = Some t" "t = ''ingredient'' \<or> t = ''recipe''"
    by (auto simp: entry_payload_def split: option.splits if_splits)
  from assms(1) t have r: "\<not> (t = ''recipe'' \<and> p_requiredItems p = None)"
    by (auto simp: entry_payload_def)
  from assms(1) t have c: "cook_time_negative t p = Inr False"
    by (auto simp: entry_payload_def cook_time_negative_def split: option.splits)
  show ?thesis
  proof (cases cb)
    case Nil
    with assms(3) t have i: "t = ''ingredient''" by simp
    with Nil t r c assms(2) show ?thesis
      by (simp add: create_entry_def required_items_of_def validate_required_items_def
          append_entry_def)
  next
    case (Cons e rest)
    with assms(2) have "name_exists cb (p_name p) = Inl (KeyError ''name'')" by simp
    with t r c show ?thesis by (auto simp: create_entry_def)
  qed
qed

theorem missing_name_raises_witness:
  "entry_payload pl_no_name \<and> p_name pl_no_name = None
   \<and> create_entry [Ingredient ''Salt'' 2] pl_no_name
       = (Inl (KeyError ''name''), [Ingredient ''Salt'' 2])
   \<and> create_entry [] pl_no_name = (Inl (KeyError ''name''), [])"
proof -
  have e: "entry_payload pl_no_name" by (simp add: entry_payload_def pl_no_name_def)
  have n: "p_name pl_no_name = None" by (simp add: pl_no_name_def)
  have t: "p_type pl_no_name = Some ''ingredient''" by (simp add: pl_no_name_def)
  from missing_name_raises[OF e n, of "[Ingredient ''Salt'' 2]"]
    missing_name_raises[OF e n, of "[]"] e n t
  show ?thesis by simp
qed




end
